theory Spec2Isabelle
  imports Complex_Main
begin

section \<open>The programs\<close>

subsection \<open>ErrorRecovery: retry wrapper and failure accounting\<close>

text \<open>
  The class \<^verbatim>\<open>ErrorRecovery\<close> keeps a dictionary \<^verbatim>\<open>failureCount\<close> from operation
  names to numbers and an in-memory \<^verbatim>\<open>errorLog\<close>. Its configuration is a plain
  object; the defaults of the constructor are \<open>defaultErrorRecoveryConfig\<close>.
  What the class does to the outside world (waiting, launching a restart script,
  printing that a script is missing) is recorded as a list of events in the state, in
  the order in which the code performs them. The daily log files written by
  \<^verbatim>\<open>logError\<close> and \<^verbatim>\<open>logRecovery\<close> are not part of the state: both methods swallow
  every exception of their file access and nothing reads the files back.
  The dictionary is a map on names; a name that every JavaScript object inherits as a
  property (such as \<^verbatim>\<open>constructor\<close>) is outside this model. A call runs without
  another call interleaving at its pauses.
\<close>

record er_config =
  er_programDir :: string
  maxRetries :: nat
  er_retryDelays :: "nat list"
  failureThreshold :: nat
  criticalServices :: "string list"

definition defaultErrorRecoveryConfig :: er_config where
  "defaultErrorRecoveryConfig =
     \<lparr> er_programDir = ''C:/SORTING HAT/BRAINS'',
       maxRetries = 3,
       er_retryDelays = [1000, 5000, 15000],
       failureThreshold = 10,
       criticalServices = [''fileOrganizer'', ''apiServer''] \<rparr>"

datatype er_event =
    RecoveryInitiated string
  | ExecScript string
  | ScriptNotFound string
  | Wait nat
  | RecoveryLogged string nat

record er_state =
  failureCount :: "string \<rightharpoonup> nat"
  errorLog :: "(string \<times> nat \<times> string) list"
  er_events :: "er_event list"

definition er_initial :: er_state where
  "er_initial = \<lparr> failureCount = Map.empty, errorLog = [], er_events = [] \<rparr>"

definition er_emit :: "er_event \<Rightarrow> er_state \<Rightarrow> er_state" where
  "er_emit e st = st\<lparr> er_events := er_events st @ [e] \<rparr>"

text \<open>\<^verbatim>\<open>path.join(dir, name)\<close>, for the directory and file names used here.\<close>

definition path_join :: "string \<Rightarrow> string \<Rightarrow> string" where
  "path_join dir name = dir @ ''/'' @ name"

definition resetFailures :: "string \<Rightarrow> er_state \<Rightarrow> er_state" where
  "resetFailures serviceName st =
     st\<lparr> failureCount := (failureCount st)(serviceName \<mapsto> 0) \<rparr>"

definition restartScriptFor :: "er_config \<Rightarrow> string \<Rightarrow> string" where
  "restartScriptFor cfg serviceName =
     (if serviceName = ''apiServer'' then path_join (er_programDir cfg) ''restart_api_server.bat''
      else if serviceName = ''fileOrganizer''
        then path_join (er_programDir cfg) ''restart_file_organizer.bat''
      else path_join (er_programDir cfg) ''fix_network_errors.bat'')"

text \<open>
  \<^verbatim>\<open>initiateRecovery\<close>: the counter is reset first, then the restart script is
  launched if \<^verbatim>\<open>fs.existsSync\<close> finds it. The argument \<open>scriptExists\<close> is the file
  system's answer. The method reads no clock and keeps no time stamp.
\<close>

definition initiateRecovery ::
  "er_config \<Rightarrow> (string \<Rightarrow> bool) \<Rightarrow> string \<Rightarrow> er_state \<Rightarrow> er_state" where
  "initiateRecovery cfg scriptExists serviceName st =
     (let st1 = er_emit (RecoveryInitiated serviceName) st;
          st2 = resetFailures serviceName st1;
          restartScript = restartScriptFor cfg serviceName
      in if scriptExists restartScript then er_emit (ExecScript restartScript) st2
         else er_emit (ScriptNotFound restartScript) st2)"

text \<open>
  \<^verbatim>\<open>recordFailure\<close>: a missing (or zero) entry is set to 0, the entry is
  incremented, and when it has reached the threshold and the name is one of the
  critical services, recovery is initiated.
\<close>

definition recordFailure ::
  "er_config \<Rightarrow> (string \<Rightarrow> bool) \<Rightarrow> string \<Rightarrow> er_state \<Rightarrow> er_state" where
  "recordFailure cfg scriptExists serviceName st =
     (let c0 = (case failureCount st serviceName of None \<Rightarrow> 0 | Some c \<Rightarrow> c);
          c1 = c0 + 1;
          st1 = st\<lparr> failureCount := (failureCount st)(serviceName \<mapsto> c1) \<rparr>
      in if failureThreshold cfg \<le> c1 then
           (if serviceName \<in> set (criticalServices cfg)
            then initiateRecovery cfg scriptExists serviceName st1
            else st1)
         else st1)"

text \<open>
  \<^verbatim>\<open>logError\<close>: the entry goes to the front of the in-memory log, which is cut
  back to 100 entries.
\<close>

definition logError :: "string \<Rightarrow> string \<Rightarrow> nat \<Rightarrow> er_state \<Rightarrow> er_state" where
  "logError operation message attempt st =
     (let l = (operation, attempt + 1, message) # errorLog st
      in st\<lparr> errorLog := (if 100 < length l then butlast l else l) \<rparr>)"

definition logRecovery :: "string \<Rightarrow> nat \<Rightarrow> er_state \<Rightarrow> er_state" where
  "logRecovery operation attempt st = er_emit (RecoveryLogged operation (attempt + 1)) st"

text \<open>
  \<^verbatim>\<open>withRetry\<close>. The operation is an arbitrary asynchronous function; \<open>operation i\<close>
  is the outcome of its invocation in attempt \<open>i\<close>: \<open>Inl message\<close> when it throws,
  \<open>Inr result\<close> when it returns. The \<^verbatim>\<open>for\<close> loop is the recursion on \<open>attempt\<close>.
  When the loop is left without a success the method throws; with \<^verbatim>\<open>maxRetries\<close>
  zero the loop body never runs, \<^verbatim>\<open>lastError\<close> is still \<^verbatim>\<open>null\<close> and reading its
  message is a \<^verbatim>\<open>TypeError\<close>.
\<close>

datatype er_error = OperationFailed string nat string | NullLastError

definition retryDelayAt :: "er_config \<Rightarrow> nat \<Rightarrow> nat" where
  "retryDelayAt cfg attempt =
     (if attempt < length (er_retryDelays cfg) \<and> er_retryDelays cfg ! attempt \<noteq> 0
      then er_retryDelays cfg ! attempt else 1000)"

function withRetry_loop ::
  "er_config \<Rightarrow> (string \<Rightarrow> bool) \<Rightarrow> (nat \<Rightarrow> string + 'a) \<Rightarrow> string \<Rightarrow>
   nat \<Rightarrow> string option \<Rightarrow> er_state \<Rightarrow> (er_error + 'a) \<times> er_state" where
  "withRetry_loop cfg scriptExists operation operationName attempt lastError st =
     (if attempt < maxRetries cfg then
        (case operation attempt of
           Inr result \<Rightarrow>
             (Inr result, if 0 < attempt then logRecovery operationName attempt st else st)
         | Inl message \<Rightarrow>
             (let st1 = recordFailure cfg scriptExists operationName st;
                  st2 = logError operationName message attempt st1;
                  st3 = (if attempt < maxRetries cfg - 1
                         then er_emit (Wait (retryDelayAt cfg attempt)) st2 else st2)
              in withRetry_loop cfg scriptExists operation operationName
                   (attempt + 1) (Some message) st3))
      else
        (case lastError of
           None \<Rightarrow> (Inl NullLastError, st)
         | Some message \<Rightarrow> (Inl (OperationFailed operationName (maxRetries cfg) message), st)))"
  by pat_completeness auto
termination
  by (relation "measure (\<lambda>(cfg, scriptExists, operation, operationName, attempt, lastError, st).
        maxRetries cfg - attempt)") auto

declare withRetry_loop.simps [simp del]

definition withRetry ::
  "er_config \<Rightarrow> (string \<Rightarrow> bool) \<Rightarrow> (nat \<Rightarrow> string + 'a) \<Rightarrow> string \<Rightarrow>
   er_state \<Rightarrow> (er_error + 'a) \<times> er_state" where
  "withRetry cfg scriptExists operation operationName st =
     withRetry_loop cfg scriptExists operation operationName 0 None st"

text \<open>Reading the state: the counter of a name, and how often recovery was initiated.\<close>

definition failuresOf :: "er_state \<Rightarrow> string \<Rightarrow> nat" where
  "failuresOf st serviceName =
     (case failureCount st serviceName of None \<Rightarrow> 0 | Some c \<Rightarrow> c)"

definition recoveriesOf :: "er_state \<Rightarrow> string \<Rightarrow> nat" where
  "recoveriesOf st serviceName =
     length (filter (\<lambda>e. e = RecoveryInitiated serviceName) (er_events st))"

text \<open>\<open>recordFailures n\<close> is \<open>n\<close> calls of \<^verbatim>\<open>recordFailure\<close> in a row for one name.\<close>

fun recordFailures ::
  "er_config \<Rightarrow> (string \<Rightarrow> bool) \<Rightarrow> string \<Rightarrow> nat \<Rightarrow> er_state \<Rightarrow> er_state" where
  "recordFailures cfg scriptExists serviceName 0 st = st"
| "recordFailures cfg scriptExists serviceName (Suc n) st =
     recordFailures cfg scriptExists serviceName n
       (recordFailure cfg scriptExists serviceName st)"

text \<open>\<open>withRetries k\<close> is \<open>k\<close> calls of \<^verbatim>\<open>withRetry\<close> one after the other.\<close>

fun withRetries ::
  "er_config \<Rightarrow> (string \<Rightarrow> bool) \<Rightarrow> (nat \<Rightarrow> string + 'a) \<Rightarrow> string \<Rightarrow> nat \<Rightarrow>
   er_state \<Rightarrow> er_state" where
  "withRetries cfg scriptExists operation operationName 0 st = st"
| "withRetries cfg scriptExists operation operationName (Suc k) st =
     withRetries cfg scriptExists operation operationName k
       (snd (withRetry cfg scriptExists operation operationName st))"

text \<open>An operation that throws in every attempt, and a state in which eight failures
  of the API server have been counted.\<close>

definition alwaysFails :: "nat \<Rightarrow> string + unit" where
  "alwaysFails i = Inl ''boom''"

definition er_eight :: er_state where
  "er_eight = er_initial\<lparr> failureCount := [''apiServer'' \<mapsto> 8] \<rparr>"

subsection \<open>Watchdog: liveness poll and bounded restart\<close>

text \<open>
  The watchdog keeps two dictionaries, \<^verbatim>\<open>failures\<close> and \<^verbatim>\<open>lastRecoveryAttempt\<close>,
  keyed by service name. \<^verbatim>\<open>start\<close> sets both to 0 for every configured service.
  A counter is a JavaScript number: incrementing a missing entry gives \<^verbatim>\<open>NaN\<close>, and
  every comparison with \<^verbatim>\<open>NaN\<close> is false. Times are milliseconds since the epoch.
  The commands the watchdog issues are recorded as events.
\<close>

definition CHECK_INTERVAL :: int where
  "CHECK_INTERVAL = 30000"

definition MAX_FAILURES :: nat where
  "MAX_FAILURES = 5"

definition RECOVERY_TIME :: int where
  "RECOVERY_TIME = 300000"

record service_config =
  processName :: string
  windowTitle :: string
  startScript :: string
  importance :: string

definition defaultServicesMap :: "(string \<times> service_config) list" where
  "defaultServicesMap =
     [(''fileOrganizer'',
         \<lparr> processName = ''node.exe'', windowTitle = ''Sorting Hat - File Monitor'',
           startScript = ''node file_organizer.js'', importance = ''critical'' \<rparr>),
      (''apiServer'',
         \<lparr> processName = ''node.exe'', windowTitle = ''Sorting Hat API Server'',
           startScript = ''node service.js'', importance = ''critical'' \<rparr>)]"

datatype jsnum = Num nat | NaN

datatype wd_event =
    BackupCriticalFiles
  | KillZombieProcesses string
  | StartService string string

record wd_state =
  failures :: "string \<rightharpoonup> jsnum"
  lastRecoveryAttempt :: "string \<rightharpoonup> int"
  wd_events :: "wd_event list"

definition wd_new :: wd_state where
  "wd_new = \<lparr> failures = Map.empty, lastRecoveryAttempt = Map.empty, wd_events = [] \<rparr>"

fun wd_start :: "(string \<times> service_config) list \<Rightarrow> wd_state \<Rightarrow> wd_state" where
  "wd_start [] st = st"
| "wd_start ((service, c) # rest) st =
     wd_start rest
       (st\<lparr> failures := (failures st)(service \<mapsto> Num 0),
            lastRecoveryAttempt := (lastRecoveryAttempt st)(service \<mapsto> 0) \<rparr>)"

text \<open>\<^verbatim>\<open>x++\<close>, \<^verbatim>\<open>x >= n\<close> and \<^verbatim>\<open>x > 0\<close> on an entry that may be missing.\<close>

definition js_incr :: "jsnum option \<Rightarrow> jsnum" where
  "js_incr x = (case x of Some (Num k) \<Rightarrow> Num (k + 1) | _ \<Rightarrow> NaN)"

definition js_ge :: "jsnum \<Rightarrow> nat \<Rightarrow> bool" where
  "js_ge x n = (case x of Num k \<Rightarrow> n \<le> k | NaN \<Rightarrow> False)"

definition js_positive :: "jsnum option \<Rightarrow> bool" where
  "js_positive x = (case x of Some (Num k) \<Rightarrow> 0 < k | _ \<Rightarrow> False)"

text \<open>\<^verbatim>\<open>now - this.lastRecoveryAttempt[serviceName] < RECOVERY_TIME\<close>; with a missing
  entry the difference is \<^verbatim>\<open>NaN\<close> and the test is false.\<close>

definition withinRecoveryTime :: "int \<Rightarrow> int option \<Rightarrow> bool" where
  "withinRecoveryTime now lastAttempt =
     (case lastAttempt of None \<Rightarrow> False | Some t \<Rightarrow> now - t < RECOVERY_TIME)"

text \<open>
  The restart part of \<^verbatim>\<open>handleServiceFailure\<close>: the time of the attempt is stored,
  a critical service gets a backup first, stale processes with the window title are
  killed, and the start command is launched once. \<^verbatim>\<open>backupCriticalFiles\<close> catches
  its own exceptions and the two launches are asynchronous (their errors arrive in
  callbacks that only print), so the \<^verbatim>\<open>catch\<close> around this block has nothing to catch.
\<close>

definition restartAttempt :: "string \<Rightarrow> service_config \<Rightarrow> int \<Rightarrow> wd_state \<Rightarrow> wd_state" where
  "restartAttempt serviceName serviceConfig now st =
     st\<lparr> lastRecoveryAttempt := (lastRecoveryAttempt st)(serviceName \<mapsto> now),
          wd_events := wd_events st
            @ (if importance serviceConfig = ''critical'' then [BackupCriticalFiles] else [])
            @ [KillZombieProcesses (windowTitle serviceConfig),
               StartService serviceName (startScript serviceConfig)] \<rparr>"

definition handleServiceFailure ::
  "string \<Rightarrow> service_config \<Rightarrow> int \<Rightarrow> wd_state \<Rightarrow> wd_state" where
  "handleServiceFailure serviceName serviceConfig now st =
     (let f1 = js_incr (failures st serviceName);
          st1 = st\<lparr> failures := (failures st)(serviceName \<mapsto> f1) \<rparr>
      in if js_ge f1 MAX_FAILURES then
           (if withinRecoveryTime now (lastRecoveryAttempt st1 serviceName) then st1
            else restartAttempt serviceName serviceConfig now
                   (st1\<lparr> failures := (failures st1)(serviceName \<mapsto> Num 0) \<rparr>))
         else restartAttempt serviceName serviceConfig now st1)"

text \<open>
  \<^verbatim>\<open>checkService\<close>: \<open>isRunning\<close> is what the process listing answered and \<open>now\<close>
  the clock when the answer arrived.
\<close>

definition checkService ::
  "string \<Rightarrow> service_config \<Rightarrow> bool \<Rightarrow> int \<Rightarrow> wd_state \<Rightarrow> wd_state" where
  "checkService serviceName serviceConfig isRunning now st =
     (if \<not> isRunning then handleServiceFailure serviceName serviceConfig now st
      else if js_positive (failures st serviceName)
        then st\<lparr> failures := (failures st)(serviceName \<mapsto> Num 0) \<rparr>
      else st)"

definition restartsOf :: "wd_state \<Rightarrow> string \<Rightarrow> nat" where
  "restartsOf st serviceName =
     length (filter (\<lambda>e. case e of StartService s c \<Rightarrow> s = serviceName | _ \<Rightarrow> False)
       (wd_events st))"

text \<open>A watchdog whose file organizer has been found absent five times, the last
  restart attempt at time 1000000.\<close>

definition wd_five :: wd_state where
  "wd_five = (wd_start defaultServicesMap wd_new)
     \<lparr> failures := [''fileOrganizer'' \<mapsto> Num 5, ''apiServer'' \<mapsto> Num 0],
       lastRecoveryAttempt := [''fileOrganizer'' \<mapsto> 1000000, ''apiServer'' \<mapsto> 0] \<rparr>"

definition fileOrganizerConfig :: service_config where
  "fileOrganizerConfig =
     \<lparr> processName = ''node.exe'', windowTitle = ''Sorting Hat - File Monitor'',
       startScript = ''node file_organizer.js'', importance = ''critical'' \<rparr>"

subsection \<open>SystemProtection: memory guard\<close>

text \<open>
  \<^verbatim>\<open>checkMemoryUsage\<close> reads \<^verbatim>\<open>os.totalmem()\<close> and \<^verbatim>\<open>os.freemem()\<close>, computes
  \<^verbatim>\<open>memoryUsagePercent = (usedMemory / totalMemory) * 100\<close> in double arithmetic and
  compares that number with two configured numbers. The rounding of the quotient and
  of the product is not modelled: the input of the model is the value of the variable
  \<^verbatim>\<open>memoryUsagePercent\<close> itself, any double, once for the sample the check starts
  with and once for the sample \<^verbatim>\<open>handleExcessiveMemoryUsage\<close> reads after the
  garbage-collection step. A comparison \<^verbatim>\<open>x > bound\<close> with \<^verbatim>\<open>NaN\<close> is false. The
  two configured numbers are finite.
\<close>

datatype js_double = Finite real | PlusInfinity | MinusInfinity | NotANumber

record mem_config =
  memoryThreshold :: real
  memoryLimit :: real

definition defaultMemConfig :: mem_config where
  "defaultMemConfig = \<lparr> memoryThreshold = 80, memoryLimit = 90 \<rparr>"

text \<open>\<^verbatim>\<open>memoryUsagePercent > bound\<close>.\<close>

definition exceeds :: "js_double \<Rightarrow> real \<Rightarrow> bool" where
  "exceeds memoryUsagePercent bound =
     (case memoryUsagePercent of
        Finite x \<Rightarrow> bound < x
      | PlusInfinity \<Rightarrow> True
      | MinusInfinity \<Rightarrow> False
      | NotANumber \<Rightarrow> False)"

text \<open>
  \<^verbatim>\<open>global.gc\<close> is missing unless the process was started with
  \<^verbatim>\<open>--expose-gc\<close>; when present, calling it may throw. \<^verbatim>\<open>collectGarbage\<close> calls
  it only when it is present, and otherwise prints that it is not available.
\<close>

datatype gc_runtime = GcNotExposed | GcWorks | GcThrows

datatype mem_event =
    GarbageCollected
  | GcError
  | GcNotAvailable
  | BackupBeforeRestart
  | ExecRestartScript

definition collectGarbage :: "gc_runtime \<Rightarrow> mem_event list" where
  "collectGarbage rt =
     (case rt of
        GcWorks \<Rightarrow> [GarbageCollected]
      | GcThrows \<Rightarrow> [GcError]
      | GcNotExposed \<Rightarrow> [GcNotAvailable])"

definition restartService :: "string \<Rightarrow> mem_event list" where
  "restartService service =
     BackupBeforeRestart #
     (if service = ''all'' \<or> service = ''sorting'' then [ExecRestartScript] else [])"

text \<open>\<^verbatim>\<open>handleExcessiveMemoryUsage\<close>: \<open>after\<close> is the percentage computed from the
  readings taken once the garbage-collection step has returned.\<close>

definition handleExcessiveMemoryUsage ::
  "mem_config \<Rightarrow> gc_runtime \<Rightarrow> js_double \<Rightarrow> mem_event list" where
  "handleExcessiveMemoryUsage cfg rt after =
     collectGarbage rt @
     (if exceeds after (memoryLimit cfg) then restartService ''all'' else [])"

definition checkMemoryUsage ::
  "mem_config \<Rightarrow> gc_runtime \<Rightarrow> js_double \<Rightarrow> js_double \<Rightarrow> mem_event list" where
  "checkMemoryUsage cfg rt first after =
     (if exceeds first (memoryLimit cfg)
        then handleExcessiveMemoryUsage cfg rt after
      else if exceeds first (memoryThreshold cfg)
        then collectGarbage rt
      else [])"

text \<open>How often the restart script was launched, and how often the collector ran.\<close>

definition restartsIn :: "mem_event list \<Rightarrow> nat" where
  "restartsIn es = length (filter (\<lambda>e. e = ExecRestartScript) es)"

definition collectionsIn :: "mem_event list \<Rightarrow> nat" where
  "collectionsIn es = length (filter (\<lambda>e. e = GarbageCollected) es)"

subsection \<open>SystemProtection: backups and file integrity\<close>

text \<open>
  The files of the program directory and of each backup folder are dictionaries from
  the file name (as listed in \<^verbatim>\<open>criticalProgramFiles\<close>) to what is at that path: a
  regular file with its content, or a directory, which \<^verbatim>\<open>fs.existsSync\<close> reports as
  present but which can neither be read as a file nor be the source or the target of
  \<^verbatim>\<open>fs.copyFileSync\<close>. The backup directory is the list of its entries in the order
  \<^verbatim>\<open>fs.readdirSync\<close> returns them, each with its modification time. The hash
  function is a parameter \<open>H\<close> (SHA-256 in the source). \<^verbatim>\<open>criticalFileHashes\<close>
  maps a name to the stored hash; \<^verbatim>\<open>calculateFileHash\<close> returns \<^verbatim>\<open>null\<close> (here
  \<open>None\<close>) when reading fails, and that value is stored like any other.
\<close>

datatype node = File string | Directory

type_synonym folder = "string \<rightharpoonup> node"

record snapshot =
  snap_name :: string
  snap_mtime :: int
  snap_files :: folder

record sp_state =
  programFiles :: folder
  backups :: "snapshot list"
  criticalFileHashes :: "string \<rightharpoonup> string option"

definition calculateFileHash :: "(string \<Rightarrow> string) \<Rightarrow> folder \<Rightarrow> string \<Rightarrow> string option" where
  "calculateFileHash H d file =
     (case d file of Some (File content) \<Rightarrow> Some (H content) | _ \<Rightarrow> None)"

text \<open>The stored hash of a file when it is truthy: present, not \<^verbatim>\<open>null\<close>, not empty.\<close>

definition storedHash :: "sp_state \<Rightarrow> string \<Rightarrow> string option" where
  "storedHash st file =
     (case criticalFileHashes st file of
        Some (Some h) \<Rightarrow> (if h = [] then None else Some h)
      | _ \<Rightarrow> None)"

text \<open>\<^verbatim>\<open>folder.startsWith('backup-')\<close>, and the entries sorted newest first. The
  sort of the source is stable, as \<open>sort_key\<close> is.\<close>

definition isBackupFolder :: "snapshot \<Rightarrow> bool" where
  "isBackupFolder b = (take 7 (snap_name b) = ''backup-'')"

definition newestFirst :: "snapshot list \<Rightarrow> snapshot list" where
  "newestFirst bs = sort_key (\<lambda>b. - snap_mtime b) (filter isBackupFolder bs)"

text \<open>
  The loop of \<^verbatim>\<open>checkFileIntegrity\<close> pushes a file onto \<^verbatim>\<open>corruptedFiles\<close> when it
  is missing; otherwise it skips the file when there is no stored hash; otherwise it
  pushes it when the current hash differs from the stored one.
\<close>

definition isCorrupted :: "(string \<Rightarrow> string) \<Rightarrow> sp_state \<Rightarrow> string \<Rightarrow> bool" where
  "isCorrupted H st file =
     (case programFiles st file of
        None \<Rightarrow> True
      | Some n \<Rightarrow>
          (case storedHash st file of
             None \<Rightarrow> False
           | Some h \<Rightarrow> calculateFileHash H (programFiles st) file \<noteq> Some h))"

definition corruptedFiles :: "(string \<Rightarrow> string) \<Rightarrow> string list \<Rightarrow> sp_state \<Rightarrow> string list" where
  "corruptedFiles H criticalProgramFiles st = filter (isCorrupted H st) criticalProgramFiles"

text \<open>
  The loop of \<^verbatim>\<open>restoreFromBackup\<close> over the corrupted files: a file the chosen
  backup does not have is reported and passed over; a copy that throws ends the loop,
  since the \<^verbatim>\<open>try\<close> encloses all of it.
\<close>

fun restoreLoop :: "folder \<Rightarrow> string list \<Rightarrow> folder \<Rightarrow> folder" where
  "restoreLoop backup [] d = d"
| "restoreLoop backup (file # rest) d =
     (case backup file of
        None \<Rightarrow> restoreLoop backup rest d
      | Some Directory \<Rightarrow> d
      | Some (File content) \<Rightarrow>
          (case d file of
             Some Directory \<Rightarrow> d
           | _ \<Rightarrow> restoreLoop backup rest (d(file \<mapsto> File content))))"

definition restoreFromBackup :: "string list \<Rightarrow> sp_state \<Rightarrow> sp_state" where
  "restoreFromBackup corrupted st =
     (case newestFirst (backups st) of
        [] \<Rightarrow> st
      | latestBackup # older \<Rightarrow>
          st\<lparr> programFiles := restoreLoop (snap_files latestBackup) corrupted (programFiles st) \<rparr>)"

text \<open>\<^verbatim>\<open>checkFileIntegrity\<close> returns nothing; the model returns the list it reported
  as corrupted together with the new state.\<close>

definition checkFileIntegrity ::
  "(string \<Rightarrow> string) \<Rightarrow> string list \<Rightarrow> sp_state \<Rightarrow> string list \<times> sp_state" where
  "checkFileIntegrity H criticalProgramFiles st =
     (let corrupted = corruptedFiles H criticalProgramFiles st
      in if corrupted \<noteq> [] then (corrupted, restoreFromBackup corrupted st)
         else (corrupted, st))"

text \<open>
  \<^verbatim>\<open>backupCriticalFiles\<close>: the folder \<^verbatim>\<open>backup-<time stamp>\<close> is created (or found,
  when it exists), every critical file that exists is copied into it and its hash is
  stored. A copy that throws ends the backup: the hashes stored so far stay, the folder
  stays with what was copied, and the clean-up is not reached. \<open>stamp\<close> is the time
  stamp in the folder's name, \<open>now\<close> the modification time the folder gets.
\<close>

fun backupLoop ::
  "(string \<Rightarrow> string) \<Rightarrow> folder \<Rightarrow> string list \<Rightarrow> folder \<times> (string \<rightharpoonup> string option) \<Rightarrow>
   bool \<times> folder \<times> (string \<rightharpoonup> string option)" where
  "backupLoop H src [] (dst, hashes) = (True, dst, hashes)"
| "backupLoop H src (file # rest) (dst, hashes) =
     (case src file of
        None \<Rightarrow> backupLoop H src rest (dst, hashes)
      | Some Directory \<Rightarrow> (False, dst, hashes)
      | Some (File content) \<Rightarrow>
          (case dst file of
             Some Directory \<Rightarrow> (False, dst, hashes)
           | _ \<Rightarrow> backupLoop H src rest
                  (dst(file \<mapsto> File content), hashes(file \<mapsto> calculateFileHash H src file))))"

definition putSnapshot :: "snapshot \<Rightarrow> snapshot list \<Rightarrow> snapshot list" where
  "putSnapshot b bs =
     (if snap_name b \<in> set (map snap_name bs)
      then map (\<lambda>x. if snap_name x = snap_name b then b else x) bs
      else bs @ [b])"

definition cleanupOldBackups :: "nat \<Rightarrow> snapshot list \<Rightarrow> snapshot list" where
  "cleanupOldBackups maxBackups bs =
     (let doomed = drop maxBackups (newestFirst bs)
      in filter (\<lambda>b. snap_name b \<notin> set (map snap_name doomed)) bs)"

definition backupCriticalFiles ::
  "(string \<Rightarrow> string) \<Rightarrow> string list \<Rightarrow> string \<Rightarrow> int \<Rightarrow> sp_state \<Rightarrow> sp_state" where
  "backupCriticalFiles H criticalProgramFiles stamp now st =
     (let name = ''backup-'' @ stamp;
          existing = (case filter (\<lambda>b. snap_name b = name) (backups st) of
                        [] \<Rightarrow> Map.empty | b # bs \<Rightarrow> snap_files b);
          (ok, dst, hashes) =
             backupLoop H (programFiles st) criticalProgramFiles (existing, criticalFileHashes st);
          bs = putSnapshot \<lparr> snap_name = name, snap_mtime = now, snap_files = dst \<rparr> (backups st)
      in st\<lparr> backups := (if ok then cleanupOldBackups 5 bs else bs),
              criticalFileHashes := hashes \<rparr>)"

text \<open>
  A small installation for concrete runs: two critical files, a stand-in hash
  function, and deletion of a program file from outside. \<open>sp_lost\<close> is the state after
  a first backup, the loss of \<^verbatim>\<open>service.js\<close>, and a second backup (as the watchdog
  makes before it restarts a critical service). \<open>sp_restarted\<close> is a freshly
  constructed object (no hash recorded yet) that finds a backup folder of an earlier
  run and an empty program directory.
\<close>

definition toyHash :: "string \<Rightarrow> string" where
  "toyHash content = ''#'' @ content"

definition twoFiles :: "string list" where
  "twoFiles = [''service.js'', ''config.js'']"

definition sp_fresh :: sp_state where
  "sp_fresh =
     \<lparr> programFiles = [''service.js'' \<mapsto> File ''s'', ''config.js'' \<mapsto> File ''c''],
       backups = [],
       criticalFileHashes = Map.empty \<rparr>"

definition deleteFile :: "string \<Rightarrow> sp_state \<Rightarrow> sp_state" where
  "deleteFile file st = st\<lparr> programFiles := (programFiles st)(file := None) \<rparr>"

definition sp_backed_up :: sp_state where
  "sp_backed_up = backupCriticalFiles toyHash twoFiles ''1'' 100 sp_fresh"

definition sp_lost :: sp_state where
  "sp_lost =
     backupCriticalFiles toyHash twoFiles ''2'' 200 (deleteFile ''service.js'' sp_backed_up)"

definition sp_restarted :: sp_state where
  "sp_restarted =
     \<lparr> programFiles = Map.empty,
       backups = [\<lparr> snap_name = ''backup-1'', snap_mtime = 100,
                    snap_files = [''service.js'' \<mapsto> File ''s''] \<rparr>],
       criticalFileHashes = Map.empty \<rparr>"

text \<open>\<open>sp_tampered\<close>: after the first backup the content of \<^verbatim>\<open>service.js\<close> is
  overwritten from outside.\<close>

definition sp_tampered :: sp_state where
  "sp_tampered =
     sp_backed_up\<lparr> programFiles := (programFiles sp_backed_up)(''service.js'' \<mapsto> File ''x'') \<rparr>"

subsection \<open>ApiService: fetch with retry and cache fallback\<close>

text \<open>
  Payloads are JSON values. The cache directory is a dictionary from the path of a
  cache file to its content: either text that \<^verbatim>\<open>JSON.parse\<close> rejects, or an object
  with the payload and the time stamp of its writing. The network is the function
  \<open>net\<close>: \<open>net i\<close> is what the HTTP request made with retry count \<open>i\<close> comes back
  with, either a response body together with the clock reading at which it is cached,
  or a failure with or without an HTTP status. The requests made and the pauses
  taken are recorded as events.
\<close>

datatype json =
    JNull
  | JBool bool
  | JNum int
  | JStr string
  | JArr "json list"
  | JObj "(string \<times> json) list"

text \<open>What JavaScript's \<^verbatim>\<open>if (value)\<close> makes of a JSON value.\<close>

fun truthy :: "json \<Rightarrow> bool" where
  "truthy JNull = False"
| "truthy (JBool b) = b"
| "truthy (JNum n) = (n \<noteq> 0)"
| "truthy (JStr s) = (s \<noteq> [])"
| "truthy (JArr xs) = True"
| "truthy (JObj members) = True"

datatype cache_file = Unparsable | Entry json int

datatype fetch_error = HttpFailure nat | NetworkFailure

datatype net_result = Response json int | Failure fetch_error

datatype fetch_result = Fresh json | FromCache json "int option"

datatype api_event = Request string nat | Sleep nat

record api_service =
  baseUrl :: string
  cachePath :: string
  retryDelays :: "nat list"

definition ApiService_new :: "string \<Rightarrow> string \<Rightarrow> api_service" where
  "ApiService_new url dir =
     \<lparr> baseUrl = url, cachePath = dir, retryDelays = [1000, 2000, 5000, 10000, 30000] \<rparr>"

record fetch_options =
  cacheFirst :: bool

record api_state =
  cacheFiles :: "string \<rightharpoonup> cache_file"
  api_events :: "api_event list"

definition api_emit :: "api_event \<Rightarrow> api_state \<Rightarrow> api_state" where
  "api_emit e st = st\<lparr> api_events := api_events st @ [e] \<rparr>"

text \<open>\<^verbatim>\<open>isRetryableError\<close>: no response at all, or a status of 500 and above.\<close>

definition isRetryableError :: "fetch_error \<Rightarrow> bool" where
  "isRetryableError err = (case err of NetworkFailure \<Rightarrow> True | HttpFailure status \<Rightarrow> 500 \<le> status)"

definition getCachePath :: "api_service \<Rightarrow> string \<Rightarrow> string" where
  "getCachePath svc endpoint =
     cachePath svc @ ''/'' @ map (\<lambda>c. if c = CHR ''/'' then CHR ''_'' else c) endpoint @ ''.json''"

text \<open>\<^verbatim>\<open>cacheResponse\<close>; a failing write is caught and only printed.\<close>

definition cacheResponse ::
  "api_service \<Rightarrow> bool \<Rightarrow> string \<Rightarrow> json \<Rightarrow> int \<Rightarrow> api_state \<Rightarrow> api_state" where
  "cacheResponse svc writable endpoint payload now st =
     (if writable
      then st\<lparr> cacheFiles := (cacheFiles st)(getCachePath svc endpoint \<mapsto> Entry payload now) \<rparr>
      else st)"

text \<open>\<^verbatim>\<open>getFromCache\<close> and \<^verbatim>\<open>getCacheTimestamp\<close>: \<open>None\<close> is \<^verbatim>\<open>null\<close>, returned
  when the file is missing or cannot be parsed.\<close>

definition getFromCache :: "api_service \<Rightarrow> api_state \<Rightarrow> string \<Rightarrow> json option" where
  "getFromCache svc st endpoint =
     (case cacheFiles st (getCachePath svc endpoint) of
        Some (Entry payload stamp) \<Rightarrow> Some payload
      | _ \<Rightarrow> None)"

definition getCacheTimestamp :: "api_service \<Rightarrow> api_state \<Rightarrow> string \<Rightarrow> int option" where
  "getCacheTimestamp svc st endpoint =
     (case cacheFiles st (getCachePath svc endpoint) of
        Some (Entry payload stamp) \<Rightarrow> Some stamp
      | _ \<Rightarrow> None)"

text \<open>
  The block that occurs twice in \<^verbatim>\<open>fetchWithRetry\<close>:
  \<^verbatim>\<open>const cachedData = this.getFromCache(endpoint); if (cachedData) return {...}\<close>.
  \<open>None\<close> means that the \<^verbatim>\<open>if\<close> was not taken.
\<close>

definition cachedAnswer :: "api_service \<Rightarrow> api_state \<Rightarrow> string \<Rightarrow> fetch_result option" where
  "cachedAnswer svc st endpoint =
     (case getFromCache svc st endpoint of
        None \<Rightarrow> None
      | Some cachedData \<Rightarrow>
          (if truthy cachedData
           then Some (FromCache cachedData (getCacheTimestamp svc st endpoint))
           else None))"

text \<open>
  \<^verbatim>\<open>fetchWithRetry(endpoint, options, retryCount)\<close>. The result is \<open>Inl\<close> of the
  error thrown to the caller, or \<open>Inr\<close> of the value returned. The recursive call
  happens only while \<open>retryCount\<close> is below the length of \<^verbatim>\<open>retryDelays\<close>.
\<close>

function fetchWithRetry ::
  "api_service \<Rightarrow> (nat \<Rightarrow> net_result) \<Rightarrow> bool \<Rightarrow> string \<Rightarrow> fetch_options \<Rightarrow> nat \<Rightarrow>
   api_state \<Rightarrow> (fetch_error + fetch_result) \<times> api_state" where
  "fetchWithRetry svc net writable endpoint options retryCount st =
     (case (if cacheFirst options then cachedAnswer svc st endpoint else None) of
        Some answer \<Rightarrow> (Inr answer, st)
      | None \<Rightarrow>
          (let st1 = api_emit (Request (baseUrl svc @ ''/'' @ endpoint) retryCount) st
           in case net retryCount of
                Response payload now \<Rightarrow>
                  (Inr (Fresh payload), cacheResponse svc writable endpoint payload now st1)
              | Failure err \<Rightarrow>
                  (if retryCount < length (retryDelays svc) \<and> isRetryableError err
                   then fetchWithRetry svc net writable endpoint options (retryCount + 1)
                          (api_emit (Sleep (retryDelays svc ! retryCount)) st1)
                   else (case cachedAnswer svc st1 endpoint of
                           Some answer \<Rightarrow> (Inr answer, st1)
                         | None \<Rightarrow> (Inl err, st1)))))"
  by pat_completeness auto
termination
  by (relation "measure (\<lambda>(svc, net, writable, endpoint, options, retryCount, st).
        length (retryDelays svc) - retryCount)") auto

declare fetchWithRetry.simps [simp del]

definition requestsIn :: "api_event list \<Rightarrow> nat" where
  "requestsIn es = length (filter (\<lambda>e. case e of Request url i \<Rightarrow> True | Sleep d \<Rightarrow> False) es)"

definition sleepsIn :: "api_event list \<Rightarrow> nat list" where
  "sleepsIn es = concat (map (\<lambda>e. case e of Request url i \<Rightarrow> [] | Sleep d \<Rightarrow> [d]) es)"

text \<open>A service object as the constructor makes it, a network that is down, a server
  that answers 404, and two cache directories: an empty one, and one holding a
  payload for the endpoint \<^verbatim>\<open>patterns\<close>.\<close>

definition api :: api_service where
  "api = ApiService_new ''http://localhost:3000/api'' ''cache''"

definition networkDown :: "nat \<Rightarrow> net_result" where
  "networkDown i = Failure NetworkFailure"

definition notFound :: "nat \<Rightarrow> net_result" where
  "notFound i = Failure (HttpFailure 404)"

definition noCache :: api_state where
  "noCache = \<lparr> cacheFiles = Map.empty, api_events = [] \<rparr>"

definition reportCached :: api_state where
  "reportCached =
     \<lparr> cacheFiles = [''cache/patterns.json'' \<mapsto> Entry (JArr [JStr ''invoice'']) 1700000000000],
       api_events = [] \<rparr>"

definition networkFirst :: fetch_options where
  "networkFirst = \<lparr> cacheFirst = False \<rparr>"

text \<open>A server that answers every request with status 200 and an empty body, and
  the state a successful call for the endpoint \<^verbatim>\<open>status\<close> leaves behind.\<close>

definition emptyBody :: "nat \<Rightarrow> net_result" where
  "emptyBody i = Response (JStr []) 1700000000000"

definition emptyBodyCached :: api_state where
  "emptyBodyCached = snd (fetchWithRetry api emptyBody True ''status'' networkFirst 0 noCache)"

subsection \<open>PerformanceOptimizer: the operation queue\<close>

text \<open>
  \<^verbatim>\<open>scheduleOperation\<close> pushes an item and starts \<^verbatim>\<open>processQueue\<close> unless it is
  running. \<^verbatim>\<open>processQueue\<close> is an asynchronous function: it runs until it awaits the
  batch it has dispatched and is resumed when every operation of the batch has
  settled. Between these two points other code runs: more submissions, and the
  completions of the operations in flight. The model is a machine over these inputs.
  An item carries what the model needs to know of its operation: whether it will
  succeed, and the size \<^verbatim>\<open>fs.stat\<close> reports for the file, if the file exists. The
  two metrics that depend on the clock (\<^verbatim>\<open>processingTimeMs\<close>, \<^verbatim>\<open>lastGcTime\<close>) and
  the optional call of \<^verbatim>\<open>global.gc\<close> between batches are left out; they do not touch
  the queue or the counter of active operations.
\<close>

record po_config =
  maxConcurrentOperations :: nat
  batchSize :: nat

record po_item =
  filePath :: string
  priority :: "int option"
  addedTime :: int
  succeeds :: bool
  fileSize :: "nat option"

record po_metrics =
  operationsCompleted :: nat
  operationsFailed :: nat
  totalBytesProcessed :: nat

record po_state =
  queue :: "po_item list"
  activeOperations :: nat
  isProcessing :: bool
  inFlight :: "po_item list"
  pendingImmediates :: nat
  metrics :: po_metrics
  settled :: "(string \<times> bool) list"

definition po_initial :: po_state where
  "po_initial =
     \<lparr> queue = [], activeOperations = 0, isProcessing = False, inFlight = [],
       pendingImmediates = 0,
       metrics = \<lparr> operationsCompleted = 0, operationsFailed = 0, totalBytesProcessed = 0 \<rparr>,
       settled = [] \<rparr>"

text \<open>
  The comparison function given to \<^verbatim>\<open>batch.sort\<close>: by priority, higher first, when
  the two priorities differ (a missing priority counts as 0 in the difference), else by
  the time of submission, older first. The sort is stable; it is modelled by insertion
  from the right, which agrees with every stable sort when the comparison is
  consistent.
\<close>

definition priorityOrZero :: "po_item \<Rightarrow> int" where
  "priorityOrZero a = (case priority a of None \<Rightarrow> 0 | Some p \<Rightarrow> p)"

definition compareItems :: "po_item \<Rightarrow> po_item \<Rightarrow> int" where
  "compareItems a b =
     (if priority a \<noteq> priority b then priorityOrZero b - priorityOrZero a
      else addedTime a - addedTime b)"

fun insertItem :: "po_item \<Rightarrow> po_item list \<Rightarrow> po_item list" where
  "insertItem x [] = [x]"
| "insertItem x (y # ys) =
     (if compareItems x y \<le> 0 then x # y # ys else y # insertItem x ys)"

definition sortBatch :: "po_item list \<Rightarrow> po_item list" where
  "sortBatch batch = foldr insertItem batch []"

text \<open>
  One turn of the \<^verbatim>\<open>while\<close> loop up to its \<^verbatim>\<open>await\<close>: the batch is cut from the
  front of the queue and sorted, and \<^verbatim>\<open>batch.map\<close> starts the asynchronous function
  of every item. Each of these runs synchronously up to its first \<^verbatim>\<open>await\<close>, that is,
  it increments \<^verbatim>\<open>activeOperations\<close> at once; so the counter has grown by the size of
  the batch when \<^verbatim>\<open>map\<close> returns.
\<close>

definition dispatchBatch :: "po_config \<Rightarrow> po_state \<Rightarrow> po_state" where
  "dispatchBatch cfg st =
     (let n = min (length (queue st)) (batchSize cfg);
          batch = sortBatch (take n (queue st))
      in st\<lparr> queue := drop n (queue st),
              activeOperations := activeOperations st + length batch,
              inFlight := batch \<rparr>)"

text \<open>The \<^verbatim>\<open>finally\<close> block of \<^verbatim>\<open>processQueue\<close>.\<close>

definition finishProcessing :: "po_state \<Rightarrow> po_state" where
  "finishProcessing st =
     (let st1 = st\<lparr> isProcessing := False \<rparr>
      in if queue st1 \<noteq> [] then st1\<lparr> pendingImmediates := pendingImmediates st1 + 1 \<rparr>
         else st1)"

text \<open>
  The loop from its head to the next point where it waits or ends. An empty batch
  (a batch size of 0) settles at once and the loop goes round again with nothing
  changed: then there is no result.
\<close>

partial_function (option) processLoop :: "po_config \<Rightarrow> po_state \<Rightarrow> po_state option" where
  "processLoop cfg st =
     (if queue st \<noteq> [] \<and> activeOperations st < maxConcurrentOperations cfg
      then (if inFlight (dispatchBatch cfg st) = []
            then processLoop cfg (dispatchBatch cfg st)
            else Some (dispatchBatch cfg st))
      else Some (finishProcessing st))"

definition processQueue :: "po_config \<Rightarrow> po_state \<Rightarrow> po_state option" where
  "processQueue cfg st =
     (if isProcessing st then Some st
      else processLoop cfg (st\<lparr> isProcessing := True \<rparr>))"

definition scheduleOperation :: "po_config \<Rightarrow> po_item \<Rightarrow> po_state \<Rightarrow> po_state option" where
  "scheduleOperation cfg item st =
     (let st1 = st\<lparr> queue := queue st @ [item] \<rparr>
      in if \<not> isProcessing st1 then processQueue cfg st1 else Some st1)"

text \<open>
  The operation at position \<open>i\<close> of the batch in flight settles: the metrics are
  updated, its promise is resolved or rejected, and the counter is decremented. When it
  was the last one of the batch, \<^verbatim>\<open>Promise.allSettled\<close> resolves and the loop goes on.
\<close>

definition recordOutcome :: "po_item \<Rightarrow> po_metrics \<Rightarrow> po_metrics" where
  "recordOutcome item m =
     (if succeeds item
      then m\<lparr> operationsCompleted := operationsCompleted m + 1,
              totalBytesProcessed :=
                (case fileSize item of None \<Rightarrow> totalBytesProcessed m
                 | Some bytes \<Rightarrow> totalBytesProcessed m + bytes) \<rparr>
      else m\<lparr> operationsFailed := operationsFailed m + 1 \<rparr>)"

definition settleOperation :: "po_config \<Rightarrow> nat \<Rightarrow> po_state \<Rightarrow> po_state option" where
  "settleOperation cfg i st =
     (if i < length (inFlight st) then
        (let item = inFlight st ! i;
             st1 = st\<lparr> metrics := recordOutcome item (metrics st),
                       settled := settled st @ [(filePath item, succeeds item)],
                       activeOperations := activeOperations st - 1,
                       inFlight := take i (inFlight st) @ drop (Suc i) (inFlight st) \<rparr>
         in if inFlight st1 = [] then processLoop cfg st1 else Some st1)
      else Some st)"

text \<open>A callback registered with \<^verbatim>\<open>setImmediate\<close> runs.\<close>

definition runImmediate :: "po_config \<Rightarrow> po_state \<Rightarrow> po_state option" where
  "runImmediate cfg st =
     (if 0 < pendingImmediates st
      then processQueue cfg (st\<lparr> pendingImmediates := pendingImmediates st - 1 \<rparr>)
      else Some st)"

datatype po_input = Submit po_item | Settle nat | Immediate

definition po_step :: "po_config \<Rightarrow> po_input \<Rightarrow> po_state \<Rightarrow> po_state option" where
  "po_step cfg inp st =
     (case inp of
        Submit item \<Rightarrow> scheduleOperation cfg item st
      | Settle i \<Rightarrow> settleOperation cfg i st
      | Immediate \<Rightarrow> runImmediate cfg st)"

fun po_run :: "po_config \<Rightarrow> po_input list \<Rightarrow> po_state \<Rightarrow> po_state option" where
  "po_run cfg [] st = Some st"
| "po_run cfg (inp # inps) st =
     (case po_step cfg inp st of None \<Rightarrow> None | Some st1 \<Rightarrow> po_run cfg inps st1)"

text \<open>The scenario of the specification: a limit of 4, batches of 20, and 25 move
  operations submitted one after the other; then the first operation settles.\<close>

definition fourAtOnce :: po_config where
  "fourAtOnce = \<lparr> maxConcurrentOperations = 4, batchSize = 20 \<rparr>"

definition moveOperation :: "nat \<Rightarrow> po_item" where
  "moveOperation i =
     \<lparr> filePath = ''inbox/file'', priority = None, addedTime = int i, succeeds = True,
       fileSize = Some 1024 \<rparr>"

definition twentyFiveMoves :: "po_input list" where
  "twentyFiveMoves = map (\<lambda>i. Submit (moveOperation i)) [0..<25]"

section \<open>Properties\<close>

subsection \<open>ErrorRecovery\<close>

lemma failuresOf_logError: "failuresOf (logError operation message attempt st) n = failuresOf st n"
  by (simp add: failuresOf_def logError_def Let_def)

lemma recoveriesOf_logError: "recoveriesOf (logError operation message attempt st) n = recoveriesOf st n"
  by (simp add: recoveriesOf_def logError_def Let_def)

lemma failuresOf_er_emit: "failuresOf (er_emit e st) n = failuresOf st n"
  by (simp add: failuresOf_def er_emit_def)

lemma recoveriesOf_er_emit:
  "recoveriesOf (er_emit e st) n = recoveriesOf st n + (if e = RecoveryInitiated n then 1 else 0)"
  by (simp add: recoveriesOf_def er_emit_def)

lemma failuresOf_recordFailure:
  "failuresOf (recordFailure cfg ex n st) n =
     (if failureThreshold cfg \<le> failuresOf st n + 1 \<and> n \<in> set (criticalServices cfg)
      then 0 else failuresOf st n + 1)"
  by (simp add: recordFailure_def initiateRecovery_def resetFailures_def failuresOf_def
        er_emit_def Let_def split: option.splits)

lemma recoveriesOf_recordFailure:
  "recoveriesOf (recordFailure cfg ex n st) n =
     recoveriesOf st n +
     (if failureThreshold cfg \<le> failuresOf st n + 1 \<and> n \<in> set (criticalServices cfg)
      then 1 else 0)"
  by (simp add: recordFailure_def initiateRecovery_def resetFailures_def failuresOf_def
        recoveriesOf_def er_emit_def Let_def split: option.splits)

lemma recordFailures_below:
  "failuresOf st n + k < failureThreshold cfg \<Longrightarrow>
   failuresOf (recordFailures cfg ex n k st) n = failuresOf st n + k \<and>
   recoveriesOf (recordFailures cfg ex n k st) n = recoveriesOf st n"
proof (induction k arbitrary: st)
  case 0
  then show ?case by simp
next
  case (Suc k)
  let ?st1 = "recordFailure cfg ex n st"
  from Suc.prems have f1: "failuresOf ?st1 n = failuresOf st n + 1"
    by (simp add: failuresOf_recordFailure)
  from Suc.prems have r1: "recoveriesOf ?st1 n = recoveriesOf st n"
    by (simp add: recoveriesOf_recordFailure)
  from Suc.prems f1 have "failuresOf ?st1 n + k < failureThreshold cfg" by simp
  from Suc.IH [OF this] f1 r1 show ?case by simp
qed

lemma recordFailures_snoc:
  "recordFailures cfg ex n (Suc k) st = recordFailure cfg ex n (recordFailures cfg ex n k st)"
  by (induction k arbitrary: st) simp_all

lemma recordFailures_threshold:
  assumes crit: "n \<in> set (criticalServices cfg)"
    and zero: "failuresOf st n = 0"
    and pos: "0 < failureThreshold cfg"
  shows "failuresOf (recordFailures cfg ex n (failureThreshold cfg) st) n = 0 \<and>
         recoveriesOf (recordFailures cfg ex n (failureThreshold cfg) st) n = recoveriesOf st n + 1"
proof -
  from pos obtain k where k: "failureThreshold cfg = Suc k"
    by (cases "failureThreshold cfg") auto
  have "failuresOf st n + k < failureThreshold cfg" using zero k by simp
  from recordFailures_below [OF this, of ex] zero
  have b: "failuresOf (recordFailures cfg ex n k st) n = k"
    "recoveriesOf (recordFailures cfg ex n k st) n = recoveriesOf st n" by simp_all
  show ?thesis
    unfolding k recordFailures_snoc
    using b crit k by (simp add: failuresOf_recordFailure recoveriesOf_recordFailure)
qed

lemma withRetry_loop_fail_step:
  "attempt < maxRetries cfg \<Longrightarrow> operation attempt = Inl message \<Longrightarrow>
   withRetry_loop cfg ex operation n attempt lastError st =
     withRetry_loop cfg ex operation n (Suc attempt) (Some message)
       (let st2 = logError n message attempt (recordFailure cfg ex n st)
        in if attempt < maxRetries cfg - 1
           then er_emit (Wait (retryDelayAt cfg attempt)) st2 else st2)"
  by (subst withRetry_loop.simps) (simp add: Let_def)

lemma withRetry_loop_exhausted:
  "\<not> attempt < maxRetries cfg \<Longrightarrow>
   withRetry_loop cfg ex operation n attempt lastError st =
     (case lastError of
           None \<Rightarrow> (Inl NullLastError, st)
         | Some message \<Rightarrow> (Inl (OperationFailed n (maxRetries cfg) message), st))"
  by (subst withRetry_loop.simps) simp

lemma withRetry_loop_counts:
  "(\<forall>i. attempt \<le> i \<and> i < maxRetries cfg \<longrightarrow> isl (operation i)) \<Longrightarrow>
   n \<notin> set (criticalServices cfg) \<or>
     failuresOf st n + (maxRetries cfg - attempt) < failureThreshold cfg \<Longrightarrow>
   failuresOf (snd (withRetry_loop cfg ex operation n attempt lastError st)) n
     = failuresOf st n + (maxRetries cfg - attempt) \<and>
   recoveriesOf (snd (withRetry_loop cfg ex operation n attempt lastError st)) n
     = recoveriesOf st n"
proof (induction cfg ex operation n attempt lastError st rule: withRetry_loop.induct)
  case (1 cfg ex operation n attempt lastError st)
  show ?case
  proof (cases "attempt < maxRetries cfg")
    case False
    then show ?thesis
      by (simp add: withRetry_loop_exhausted split: option.splits)
  next
    case True
    with "1.prems"(1) obtain message where m: "operation attempt = Inl message"
      by (cases "operation attempt") auto
    define st1 where "st1 = recordFailure cfg ex n st"
    define st2 where "st2 = logError n message attempt st1"
    define st3 where "st3 = (if attempt < maxRetries cfg - 1
                         then er_emit (Wait (retryDelayAt cfg attempt)) st2 else st2)"
    have f3: "failuresOf st3 n = failuresOf st n + 1"
      using "1.prems"(2) True
      by (auto simp: st3_def st2_def st1_def failuresOf_er_emit failuresOf_logError
            failuresOf_recordFailure)
    have r3: "recoveriesOf st3 n = recoveriesOf st n"
      using "1.prems"(2) True
      by (auto simp: st3_def st2_def st1_def recoveriesOf_er_emit recoveriesOf_logError
            recoveriesOf_recordFailure)
    have ih: "failuresOf (snd (withRetry_loop cfg ex operation n (attempt + 1) (Some message) st3)) n
        = failuresOf st3 n + (maxRetries cfg - (attempt + 1)) \<and>
      recoveriesOf (snd (withRetry_loop cfg ex operation n (attempt + 1) (Some message) st3)) n
        = recoveriesOf st3 n"
    proof (rule "1.IH" [OF True m st1_def st2_def st3_def])
      show "\<forall>i. attempt + 1 \<le> i \<and> i < maxRetries cfg \<longrightarrow> isl (operation i)"
        using "1.prems"(1) by simp
      show "n \<notin> set (criticalServices cfg) \<or>
        failuresOf st3 n + (maxRetries cfg - (attempt + 1)) < failureThreshold cfg"
        using "1.prems"(2) True f3 by auto
    qed
    have unfold: "withRetry_loop cfg ex operation n attempt lastError st
        = withRetry_loop cfg ex operation n (attempt + 1) (Some message) st3"
      using True m
      by (simp add: withRetry_loop_fail_step st3_def st2_def st1_def Let_def)
    show ?thesis
      using ih f3 r3 True by (simp add: unfold)
  qed
qed

lemma default_cfg_fields:
  "maxRetries defaultErrorRecoveryConfig = 3"
  "failureThreshold defaultErrorRecoveryConfig = 10"
  "''apiServer'' \<in> set (criticalServices defaultErrorRecoveryConfig)"
  by (simp_all add: defaultErrorRecoveryConfig_def)

lemma er_initial_counts:
  "failuresOf er_initial n = 0" "recoveriesOf er_initial n = 0"
  by (simp_all add: er_initial_def failuresOf_def recoveriesOf_def)

text \<open>One failing call at the default configuration, in terms of the two observations.\<close>

lemma withRetry_alwaysFails_default:
  "failuresOf (snd (withRetry defaultErrorRecoveryConfig ex alwaysFails ''apiServer'' st)) ''apiServer''
     = (let step = (\<lambda>c. if 10 \<le> c + 1 then 0 else c + 1)
        in step (step (step (failuresOf st ''apiServer''))))"
  "recoveriesOf (snd (withRetry defaultErrorRecoveryConfig ex alwaysFails ''apiServer'' st)) ''apiServer''
     = (let step = (\<lambda>c. if 10 \<le> c + 1 then 0 else c + 1);
            c0 = failuresOf st ''apiServer''
        in recoveriesOf st ''apiServer'' + (if 10 \<le> c0 + 1 then 1 else 0)
           + (if 10 \<le> step c0 + 1 then 1 else 0) + (if 10 \<le> step (step c0) + 1 then 1 else 0))"
  by (simp_all add: withRetry_def withRetry_loop_fail_step withRetry_loop_exhausted
        default_cfg_fields alwaysFails_def Let_def failuresOf_logError failuresOf_er_emit
        failuresOf_recordFailure recoveriesOf_logError recoveriesOf_er_emit
        recoveriesOf_recordFailure)

text \<open>
  Against claim C10 as stated: with eight failures of the (critical) API server on
  record, a call whose three attempts all fail does not leave the count at eleven. The
  second failure reaches the threshold of ten, recovery resets the counter, and the
  third failure makes it one.
\<close>

theorem withRetry_count_reset_counterexample:
  "failuresOf er_eight ''apiServer'' = 8 \<and>
   failuresOf (snd (withRetry defaultErrorRecoveryConfig (\<lambda>p. True) alwaysFails ''apiServer'' er_eight))
     ''apiServer'' = 1"
proof -
  have "failuresOf er_eight ''apiServer'' = 8"
    by (simp add: er_eight_def failuresOf_def er_initial_def)
  then show ?thesis
    by (simp add: withRetry_alwaysFails_default)
qed

text \<open>
  Claim C10, amended. The counter of a name is incremented once for every failed
  attempt: a \<^verbatim>\<open>withRetry\<close> call all of whose \<open>maxRetries\<close> attempts fail raises the
  count by \<open>maxRetries\<close> (3 by default) and initiates no recovery, provided that
  the name is not a critical service or the threshold is not reached during the call.
  With the default configuration three failing calls for the API server bring the
  count from nothing to nine, and recovery is initiated during the fourth call: the
  threshold of ten is reached after fewer than ten calls.
\<close>

theorem withRetry_counts_per_attempt:
  "((\<forall>i<maxRetries cfg. isl (operation i)) \<and>
    (n \<notin> set (criticalServices cfg) \<or> failuresOf st n + maxRetries cfg < failureThreshold cfg)
    \<longrightarrow> failuresOf (snd (withRetry cfg ex operation n st)) n = failuresOf st n + maxRetries cfg \<and>
        recoveriesOf (snd (withRetry cfg ex operation n st)) n = recoveriesOf st n) \<and>
   failuresOf (withRetries defaultErrorRecoveryConfig ex alwaysFails ''apiServer'' 3 er_initial)
     ''apiServer'' = 9 \<and>
   recoveriesOf (withRetries defaultErrorRecoveryConfig ex alwaysFails ''apiServer'' 3 er_initial)
     ''apiServer'' = 0 \<and>
   recoveriesOf (withRetries defaultErrorRecoveryConfig ex alwaysFails ''apiServer'' 4 er_initial)
     ''apiServer'' = 1"
proof (intro conjI impI)
  assume a: "(\<forall>i<maxRetries cfg. isl (operation i)) \<and>
    (n \<notin> set (criticalServices cfg) \<or> failuresOf st n + maxRetries cfg < failureThreshold cfg)"
  then have "failuresOf (snd (withRetry_loop cfg ex operation n 0 None st)) n
     = failuresOf st n + (maxRetries cfg - 0) \<and>
   recoveriesOf (snd (withRetry_loop cfg ex operation n 0 None st)) n
     = recoveriesOf st n"
    by (intro withRetry_loop_counts) auto
  then show "failuresOf (snd (withRetry cfg ex operation n st)) n = failuresOf st n + maxRetries cfg"
    and "recoveriesOf (snd (withRetry cfg ex operation n st)) n = recoveriesOf st n"
    by (simp_all add: withRetry_def)
next
  show "failuresOf (withRetries defaultErrorRecoveryConfig ex alwaysFails ''apiServer'' 3 er_initial)
     ''apiServer'' = 9"
    by (simp add: numeral_3_eq_3 withRetry_alwaysFails_default er_initial_counts)
  show "recoveriesOf (withRetries defaultErrorRecoveryConfig ex alwaysFails ''apiServer'' 3 er_initial)
     ''apiServer'' = 0"
    by (simp add: numeral_3_eq_3 withRetry_alwaysFails_default er_initial_counts)
  show "recoveriesOf (withRetries defaultErrorRecoveryConfig ex alwaysFails ''apiServer'' 4 er_initial)
     ''apiServer'' = 1"
    by (simp add: numeral_Bit0 [of "Num.Bit0 Num.One"] numeral_2_eq_2 withRetry_alwaysFails_default er_initial_counts)
qed

text \<open>One failing call from the initial state: the count goes from nothing to three.\<close>

theorem withRetry_counts_per_attempt_witness:
  "isl (alwaysFails 0) \<and> isl (alwaysFails 1) \<and> isl (alwaysFails 2) \<and>
   maxRetries defaultErrorRecoveryConfig = 3 \<and>
   failuresOf er_initial ''apiServer'' + maxRetries defaultErrorRecoveryConfig
     < failureThreshold defaultErrorRecoveryConfig \<and>
   failuresOf (snd (withRetry defaultErrorRecoveryConfig (\<lambda>p. True) alwaysFails ''apiServer'' er_initial))
     ''apiServer'' = 3"
  using withRetry_counts_per_attempt [of defaultErrorRecoveryConfig alwaysFails "''apiServer''"
      er_initial "\<lambda>p. True"]
  by (simp add: default_cfg_fields er_initial_counts alwaysFails_def)

text \<open>
  Against claim C8 as stated: \<^verbatim>\<open>recordFailure\<close> and \<^verbatim>\<open>initiateRecovery\<close> read no
  clock and arm no cooldown. Ten failures of the API server initiate recovery and
  reset the counter; ten more, recorded immediately afterwards, initiate it again.
\<close>

theorem recordFailure_no_cooldown_counterexample:
  "recoveriesOf (recordFailures defaultErrorRecoveryConfig (\<lambda>p. True) ''apiServer'' 10 er_initial)
     ''apiServer'' = 1 \<and>
   failuresOf (recordFailures defaultErrorRecoveryConfig (\<lambda>p. True) ''apiServer'' 10 er_initial)
     ''apiServer'' = 0 \<and>
   recoveriesOf (recordFailures defaultErrorRecoveryConfig (\<lambda>p. True) ''apiServer'' 10
       (recordFailures defaultErrorRecoveryConfig (\<lambda>p. True) ''apiServer'' 10 er_initial))
     ''apiServer'' = 2"
proof -
  let ?st = "recordFailures defaultErrorRecoveryConfig (\<lambda>p. True) ''apiServer'' 10 er_initial"
  have a: "failuresOf ?st ''apiServer'' = 0 \<and> recoveriesOf ?st ''apiServer'' = 1"
    using recordFailures_threshold [of "''apiServer''" defaultErrorRecoveryConfig er_initial
        "\<lambda>p. True"]
    by (simp add: default_cfg_fields er_initial_counts)
  then have "recoveriesOf (recordFailures defaultErrorRecoveryConfig (\<lambda>p. True) ''apiServer'' 10 ?st)
     ''apiServer'' = 2"
    using recordFailures_threshold [of "''apiServer''" defaultErrorRecoveryConfig "?st"
        "\<lambda>p. True"]
    by (simp add: default_cfg_fields)
  with a show ?thesis by simp
qed

text \<open>
  Claim C8, amended. Recovery is held back by the count alone: once recovery has reset
  the counter of a critical service to zero, each of the next
  \<open>failureThreshold - 1\<close> failures recorded for that name only counts up and
  initiates nothing; the failure that brings the count to \<open>failureThreshold\<close>
  initiates recovery again and resets the counter, however soon it is recorded.
\<close>

theorem recordFailure_retrigger_after_threshold:
  assumes "n \<in> set (criticalServices cfg)"
    and "failuresOf st n = 0"
    and "0 < failureThreshold cfg"
  shows "(\<forall>k<failureThreshold cfg.
            recoveriesOf (recordFailures cfg ex n k st) n = recoveriesOf st n \<and>
            failuresOf (recordFailures cfg ex n k st) n = k) \<and>
         recoveriesOf (recordFailures cfg ex n (failureThreshold cfg) st) n = recoveriesOf st n + 1 \<and>
         failuresOf (recordFailures cfg ex n (failureThreshold cfg) st) n = 0"
  using assms recordFailures_below [of st n _ cfg ex] recordFailures_threshold [of n cfg st ex]
  by simp

text \<open>The default configuration, from the initial state, with no restart script on disk.\<close>

theorem recordFailure_retrigger_after_threshold_witness:
  "''apiServer'' \<in> set (criticalServices defaultErrorRecoveryConfig) \<and>
   failuresOf er_initial ''apiServer'' = 0 \<and>
   0 < failureThreshold defaultErrorRecoveryConfig \<and>
   recoveriesOf (recordFailures defaultErrorRecoveryConfig (\<lambda>p. False) ''apiServer'' 9 er_initial)
     ''apiServer'' = 0 \<and>
   recoveriesOf (recordFailures defaultErrorRecoveryConfig (\<lambda>p. False) ''apiServer''
      (failureThreshold defaultErrorRecoveryConfig) er_initial) ''apiServer'' = 1"
  using recordFailure_retrigger_after_threshold [of "''apiServer''" defaultErrorRecoveryConfig
      er_initial "\<lambda>p. False"]
  by (simp add: default_cfg_fields er_initial_counts)

subsection \<open>Watchdog\<close>

lemma restartsOf_restartAttempt:
  "restartsOf (restartAttempt serviceName serviceConfig now st) serviceName
     = restartsOf st serviceName + 1"
  by (simp add: restartsOf_def restartAttempt_def)

lemma restartsOf_failures_update:
  "restartsOf (st\<lparr> failures := f \<rparr>) serviceName = restartsOf st serviceName"
  by (simp add: restartsOf_def)

lemma handleServiceFailure_inhibited:
  assumes "failures st serviceName = Some (Num c)"
    and "lastRecoveryAttempt st serviceName = Some t"
    and "MAX_FAILURES \<le> c + 1"
    and "now - t < RECOVERY_TIME"
  shows "handleServiceFailure serviceName serviceConfig now st
           = st\<lparr> failures := (failures st)(serviceName \<mapsto> Num (c + 1)) \<rparr>"
  using assms
  by (simp add: handleServiceFailure_def js_incr_def js_ge_def withinRecoveryTime_def Let_def)

lemma handleServiceFailure_resumed:
  assumes "failures st serviceName = Some (Num c)"
    and "lastRecoveryAttempt st serviceName = Some t"
    and "MAX_FAILURES \<le> c + 1"
    and "\<not> now - t < RECOVERY_TIME"
  shows "handleServiceFailure serviceName serviceConfig now st
           = restartAttempt serviceName serviceConfig now
               (st\<lparr> failures := (failures st)(serviceName \<mapsto> Num 0) \<rparr>)"
  using assms
  by (simp add: handleServiceFailure_def js_incr_def js_ge_def withinRecoveryTime_def Let_def)

text \<open>
  Claim C5. A health check that finds a service absent increments its counter. When
  the counter has then reached \<open>MAX_FAILURES\<close> (in particular when it already had
  before the check) and less than \<open>RECOVERY_TIME\<close> has passed since the last
  recovery attempt, the check issues no command at all. When at least
  \<open>RECOVERY_TIME\<close> has passed, the check sets the counter to 0, launches the
  service's start command exactly once and stores the time of this attempt.
\<close>

theorem checkService_cooldown:
  assumes "failures st serviceName = Some (Num c)"
    and "lastRecoveryAttempt st serviceName = Some t"
    and "MAX_FAILURES \<le> c + 1"
  shows "(now - t < RECOVERY_TIME \<longrightarrow>
            wd_events (checkService serviceName serviceConfig False now st) = wd_events st \<and>
            restartsOf (checkService serviceName serviceConfig False now st) serviceName
              = restartsOf st serviceName \<and>
            lastRecoveryAttempt (checkService serviceName serviceConfig False now st) serviceName
              = Some t) \<and>
         (RECOVERY_TIME \<le> now - t \<longrightarrow>
            failures (checkService serviceName serviceConfig False now st) serviceName
              = Some (Num 0) \<and>
            restartsOf (checkService serviceName serviceConfig False now st) serviceName
              = restartsOf st serviceName + 1 \<and>
            lastRecoveryAttempt (checkService serviceName serviceConfig False now st) serviceName
              = Some now)"
proof (intro conjI impI)
  assume w: "now - t < RECOVERY_TIME"
  have e: "checkService serviceName serviceConfig False now st
             = st\<lparr> failures := (failures st)(serviceName \<mapsto> Num (c + 1)) \<rparr>"
    using handleServiceFailure_inhibited [OF assms w] by (simp add: checkService_def)
  show "wd_events (checkService serviceName serviceConfig False now st) = wd_events st"
    by (simp add: e)
  show "restartsOf (checkService serviceName serviceConfig False now st) serviceName
          = restartsOf st serviceName"
    by (simp add: e restartsOf_failures_update)
  show "lastRecoveryAttempt (checkService serviceName serviceConfig False now st) serviceName
          = Some t"
    using assms(2) by (simp add: e)
next
  assume "RECOVERY_TIME \<le> now - t"
  then have w: "\<not> now - t < RECOVERY_TIME" by simp
  have e: "checkService serviceName serviceConfig False now st
             = restartAttempt serviceName serviceConfig now
                 (st\<lparr> failures := (failures st)(serviceName \<mapsto> Num 0) \<rparr>)"
    using handleServiceFailure_resumed [OF assms w] by (simp add: checkService_def)
  show "failures (checkService serviceName serviceConfig False now st) serviceName
          = Some (Num 0)"
    by (simp add: e restartAttempt_def)
  show "restartsOf (checkService serviceName serviceConfig False now st) serviceName
          = restartsOf st serviceName + 1"
    by (simp add: e restartsOf_restartAttempt restartsOf_failures_update)
  show "lastRecoveryAttempt (checkService serviceName serviceConfig False now st) serviceName
          = Some now"
    by (simp add: e restartAttempt_def)
qed

lemma wd_five_fields:
  "failures wd_five ''fileOrganizer'' = Some (Num 5)"
  "lastRecoveryAttempt wd_five ''fileOrganizer'' = Some 1000000"
  "restartsOf wd_five ''fileOrganizer'' = 0"
  by (simp_all add: wd_five_def restartsOf_def defaultServicesMap_def wd_new_def)

text \<open>The file organizer after five failures, checked one minute and then five
  minutes after the last attempt.\<close>

theorem checkService_cooldown_witness:
  "failures wd_five ''fileOrganizer'' = Some (Num 5) \<and>
   lastRecoveryAttempt wd_five ''fileOrganizer'' = Some 1000000 \<and>
   MAX_FAILURES \<le> 5 + 1 \<and>
   1060000 - 1000000 < RECOVERY_TIME \<and>
   restartsOf (checkService ''fileOrganizer'' fileOrganizerConfig False 1060000 wd_five)
     ''fileOrganizer'' = 0 \<and>
   RECOVERY_TIME \<le> 1300000 - 1000000 \<and>
   restartsOf (checkService ''fileOrganizer'' fileOrganizerConfig False 1300000 wd_five)
     ''fileOrganizer'' = 1 \<and>
   failures (checkService ''fileOrganizer'' fileOrganizerConfig False 1300000 wd_five)
     ''fileOrganizer'' = Some (Num 0)"
proof -
  have m: "MAX_FAILURES \<le> 5 + 1" by (simp add: MAX_FAILURES_def)
  have a: "(1060000::int) - 1000000 < RECOVERY_TIME" by (simp add: RECOVERY_TIME_def)
  have b: "RECOVERY_TIME \<le> (1300000::int) - 1000000" by (simp add: RECOVERY_TIME_def)
  show ?thesis
    using checkService_cooldown [OF wd_five_fields(1) wd_five_fields(2) m,
        of 1060000 fileOrganizerConfig]
      checkService_cooldown [OF wd_five_fields(1) wd_five_fields(2) m,
        of 1300000 fileOrganizerConfig]
      a b m wd_five_fields
    by simp
qed

subsection \<open>Memory guard\<close>

lemma restartsIn_collectGarbage: "restartsIn (collectGarbage rt) = 0"
  by (cases rt) (simp_all add: restartsIn_def collectGarbage_def)

lemma restartsIn_restartService_all: "restartsIn (restartService ''all'') = 1"
  by (simp add: restartsIn_def restartService_def)

lemma restartsIn_append: "restartsIn (xs @ ys) = restartsIn xs + restartsIn ys"
  by (simp add: restartsIn_def)

lemma collectionsIn_collectGarbage:
  "collectionsIn (collectGarbage rt) = (if rt = GcWorks then 1 else 0)"
  by (cases rt) (simp_all add: collectionsIn_def collectGarbage_def)

lemma collectionsIn_restartService: "collectionsIn (restartService service) = 0"
  by (simp add: collectionsIn_def restartService_def)

lemma collectionsIn_append: "collectionsIn (xs @ ys) = collectionsIn xs + collectionsIn ys"
  by (simp add: collectionsIn_def)

text \<open>
  Against claim C6 as stated: in a process started without \<^verbatim>\<open>--expose-gc\<close>, a
  check at 85 percent (thresholds 80 and 90) runs no collection at all, and a check at
  95 percent, with 92 percent in the second sample, restarts although no collection
  came before the second sample.
\<close>

theorem checkMemoryUsage_no_collection_counterexample:
  "exceeds (Finite 85) (memoryThreshold defaultMemConfig) \<and>
   \<not> exceeds (Finite 85) (memoryLimit defaultMemConfig) \<and>
   checkMemoryUsage defaultMemConfig GcNotExposed (Finite 85) (Finite 85) = [GcNotAvailable] \<and>
   collectionsIn (checkMemoryUsage defaultMemConfig GcNotExposed (Finite 85) (Finite 85)) = 0 \<and>
   exceeds (Finite 95) (memoryLimit defaultMemConfig) \<and>
   checkMemoryUsage defaultMemConfig GcNotExposed (Finite 95) (Finite 92)
     = [GcNotAvailable, BackupBeforeRestart, ExecRestartScript] \<and>
   collectionsIn (checkMemoryUsage defaultMemConfig GcNotExposed (Finite 95) (Finite 92)) = 0"
  by (simp add: checkMemoryUsage_def handleExcessiveMemoryUsage_def exceeds_def
        defaultMemConfig_def collectGarbage_def restartService_def collectionsIn_def)

text \<open>
  Claim C6, amended. On every memory check, with the percentage as the code computed
  it: a percentage above the warning threshold but not above the limit makes the check
  call \<^verbatim>\<open>collectGarbage\<close> and nothing else, never a restart; a percentage above the
  limit makes it call \<^verbatim>\<open>collectGarbage\<close>, then look at the percentage of a fresh
  sample, and restart (backup, then the restart script) exactly when that fresh
  percentage is still above the limit; a percentage above neither does nothing. The
  restart script is launched at most once per check. \<^verbatim>\<open>collectGarbage\<close> runs a
  collection, exactly one, only when the runtime exposes \<^verbatim>\<open>global.gc\<close> and the call
  does not throw; otherwise no collection precedes the fresh sample or the restart.
\<close>

theorem checkMemoryUsage_bands:
  "(exceeds first (memoryThreshold cfg) \<and> \<not> exceeds first (memoryLimit cfg) \<longrightarrow>
      checkMemoryUsage cfg rt first after = collectGarbage rt \<and>
      restartsIn (checkMemoryUsage cfg rt first after) = 0) \<and>
   (exceeds first (memoryLimit cfg) \<longrightarrow>
      checkMemoryUsage cfg rt first after =
        collectGarbage rt @
        (if exceeds after (memoryLimit cfg)
         then [BackupBeforeRestart, ExecRestartScript] else []) \<and>
      restartsIn (checkMemoryUsage cfg rt first after) =
        (if exceeds after (memoryLimit cfg) then 1 else 0)) \<and>
   (\<not> exceeds first (memoryThreshold cfg) \<and> \<not> exceeds first (memoryLimit cfg) \<longrightarrow>
      checkMemoryUsage cfg rt first after = []) \<and>
   restartsIn (checkMemoryUsage cfg rt first after) \<le> 1 \<and>
   collectionsIn (checkMemoryUsage cfg rt first after) =
     (if rt = GcWorks \<and> (exceeds first (memoryLimit cfg) \<or> exceeds first (memoryThreshold cfg))
      then 1 else 0) \<and>
   collectGarbage rt =
     (if rt = GcWorks then [GarbageCollected]
      else if rt = GcThrows then [GcError] else [GcNotAvailable])"
proof (intro conjI impI)
  assume "exceeds first (memoryThreshold cfg) \<and> \<not> exceeds first (memoryLimit cfg)"
  then show "checkMemoryUsage cfg rt first after = collectGarbage rt"
    and "restartsIn (checkMemoryUsage cfg rt first after) = 0"
    by (simp_all add: checkMemoryUsage_def restartsIn_collectGarbage)
next
  assume "exceeds first (memoryLimit cfg)"
  then have e: "checkMemoryUsage cfg rt first after =
      collectGarbage rt @ (if exceeds after (memoryLimit cfg) then restartService ''all'' else [])"
    by (simp add: checkMemoryUsage_def handleExcessiveMemoryUsage_def)
  show "checkMemoryUsage cfg rt first after =
        collectGarbage rt @
        (if exceeds after (memoryLimit cfg)
         then [BackupBeforeRestart, ExecRestartScript] else [])"
    unfolding e by (simp add: restartService_def)
  show "restartsIn (checkMemoryUsage cfg rt first after) =
        (if exceeds after (memoryLimit cfg) then 1 else 0)"
    unfolding e
    by (simp add: restartsIn_append restartsIn_collectGarbage restartsIn_restartService_all)
       (simp add: restartsIn_def)
next
  assume "\<not> exceeds first (memoryThreshold cfg) \<and> \<not> exceeds first (memoryLimit cfg)"
  then show "checkMemoryUsage cfg rt first after = []"
    by (simp add: checkMemoryUsage_def)
next
  show "restartsIn (checkMemoryUsage cfg rt first after) \<le> 1"
    by (simp add: checkMemoryUsage_def handleExcessiveMemoryUsage_def restartsIn_append
          restartsIn_collectGarbage restartsIn_restartService_all)
       (simp add: restartsIn_def)
next
  show "collectionsIn (checkMemoryUsage cfg rt first after) =
     (if rt = GcWorks \<and> (exceeds first (memoryLimit cfg) \<or> exceeds first (memoryThreshold cfg))
      then 1 else 0)"
    by (simp add: checkMemoryUsage_def handleExcessiveMemoryUsage_def collectionsIn_append
          collectionsIn_collectGarbage collectionsIn_restartService)
       (simp add: collectionsIn_def)
next
  show "collectGarbage rt =
     (if rt = GcWorks then [GarbageCollected]
      else if rt = GcThrows then [GcError] else [GcNotAvailable])"
    by (cases rt) (simp_all add: collectGarbage_def)
qed

lemma default_bands:
  "exceeds (Finite 85) (memoryThreshold defaultMemConfig)"
  "\<not> exceeds (Finite 85) (memoryLimit defaultMemConfig)"
  "exceeds (Finite 95) (memoryLimit defaultMemConfig)"
  "exceeds (Finite 92) (memoryLimit defaultMemConfig)"
  "\<not> exceeds (Finite 70) (memoryThreshold defaultMemConfig)"
  "\<not> exceeds (Finite 70) (memoryLimit defaultMemConfig)"
  by (simp_all add: exceeds_def defaultMemConfig_def)

text \<open>With the collector exposed: at 85 percent only the collector runs; at 95
  percent, and 92 afterwards, one restart follows the collection; at 95 percent, and
  85 afterwards, none does; at 70 percent nothing happens.\<close>

theorem checkMemoryUsage_bands_witness:
  "exceeds (Finite 85) (memoryThreshold defaultMemConfig) \<and>
   \<not> exceeds (Finite 85) (memoryLimit defaultMemConfig) \<and>
   checkMemoryUsage defaultMemConfig GcWorks (Finite 85) (Finite 85) = [GarbageCollected] \<and>
   exceeds (Finite 95) (memoryLimit defaultMemConfig) \<and>
   checkMemoryUsage defaultMemConfig GcWorks (Finite 95) (Finite 92)
     = [GarbageCollected, BackupBeforeRestart, ExecRestartScript] \<and>
   checkMemoryUsage defaultMemConfig GcWorks (Finite 95) (Finite 85) = [GarbageCollected] \<and>
   \<not> exceeds (Finite 70) (memoryThreshold defaultMemConfig) \<and>
   \<not> exceeds (Finite 70) (memoryLimit defaultMemConfig) \<and>
   checkMemoryUsage defaultMemConfig GcWorks (Finite 70) (Finite 70) = []"
  using checkMemoryUsage_bands [of "Finite 85" defaultMemConfig GcWorks "Finite 85"]
    checkMemoryUsage_bands [of "Finite 95" defaultMemConfig GcWorks "Finite 92"]
    checkMemoryUsage_bands [of "Finite 95" defaultMemConfig GcWorks "Finite 85"]
    checkMemoryUsage_bands [of "Finite 70" defaultMemConfig GcWorks "Finite 70"]
    default_bands
  by (simp add: exceeds_def defaultMemConfig_def)

subsection \<open>File integrity\<close>

lemma restoreLoop_other: "g \<notin> set fs \<Longrightarrow> restoreLoop b fs d g = d g"
  by (induction fs arbitrary: d) (auto split: option.splits node.splits)

lemma restoreLoop_clean:
  "(\<forall>g\<in>set fs. b g \<noteq> Some Directory \<and> d g \<noteq> Some Directory) \<Longrightarrow>
   restoreLoop b fs d g =
     (if g \<in> set fs then (case b g of None \<Rightarrow> d g | Some n \<Rightarrow> Some n) else d g)"
proof (induction fs arbitrary: d)
  case Nil
  then show ?case by simp
next
  case (Cons f fs)
  show ?case
  proof (cases "b f")
    case None
    with Cons show ?thesis by auto
  next
    case (Some n)
    with Cons.prems obtain content where n: "n = File content"
      by (cases n) auto
    from Cons.prems have nd: "d f \<noteq> Some Directory" by simp
    define d' where "d' = d(f \<mapsto> File content)"
    have step: "restoreLoop b (f # fs) d = restoreLoop b fs d'"
      using Some n nd by (auto simp: d'_def split: option.splits node.splits)
    have pre: "\<forall>g\<in>set fs. b g \<noteq> Some Directory \<and> d' g \<noteq> Some Directory"
      using Cons.prems by (auto simp: d'_def)
    have ih: "restoreLoop b fs d' g =
        (if g \<in> set fs then (case b g of None \<Rightarrow> d' g | Some n \<Rightarrow> Some n) else d' g)"
      by (rule Cons.IH [OF pre])
    have lhs: "restoreLoop b (f # fs) d g =
        (if g \<in> set fs then (case b g of None \<Rightarrow> d' g | Some n \<Rightarrow> Some n) else d' g)"
      by (simp only: step ih)
    show ?thesis
    proof (cases "g = f")
      case True
      have "d' g = Some (File content)" "b g = Some (File content)"
        using True Some n by (simp_all add: d'_def)
      then show ?thesis unfolding lhs using True by (simp split: option.splits)
    next
      case False
      then have "d' g = d g" by (simp add: d'_def)
      then show ?thesis unfolding lhs using False by (simp split: option.splits)
    qed
  qed
qed

lemma checkFileIntegrity_fst:
  "fst (checkFileIntegrity H crit st) = corruptedFiles H crit st"
  by (simp add: checkFileIntegrity_def Let_def)

lemma checkFileIntegrity_other:
  "g \<notin> set (corruptedFiles H crit st) \<Longrightarrow>
   programFiles (snd (checkFileIntegrity H crit st)) g = programFiles st g"
  by (simp add: checkFileIntegrity_def Let_def restoreFromBackup_def restoreLoop_other
        split: list.splits)

lemma checkFileIntegrity_keeps:
  "backups (snd (checkFileIntegrity H crit st)) = backups st \<and>
   criticalFileHashes (snd (checkFileIntegrity H crit st)) = criticalFileHashes st"
  by (simp add: checkFileIntegrity_def Let_def restoreFromBackup_def split: list.splits)

text \<open>
  Claim C7, amended. The integrity check restores from one backup only: the newest
  folder of the backup directory (by modification time). When no copy fails, every
  critical file that is missing, or whose hash differs from its stored hash, ends up
  with the content that folder holds for it, and stays as it was when that folder has
  no such file, whatever older folders hold. Without any backup folder nothing
  changes. Files that were not reported as corrupted are never touched.
\<close>

theorem checkFileIntegrity_restores_from_latest:
  "(\<forall>g. g \<notin> set (corruptedFiles H crit st) \<longrightarrow>
        programFiles (snd (checkFileIntegrity H crit st)) g = programFiles st g) \<and>
   (newestFirst (backups st) = [] \<longrightarrow> snd (checkFileIntegrity H crit st) = st) \<and>
   (\<forall>latest older.
      newestFirst (backups st) = latest # older \<and>
      (\<forall>g\<in>set (corruptedFiles H crit st).
          snap_files latest g \<noteq> Some Directory \<and> programFiles st g \<noteq> Some Directory) \<longrightarrow>
      (\<forall>f\<in>set (corruptedFiles H crit st).
          programFiles (snd (checkFileIntegrity H crit st)) f =
            (case snap_files latest f of None \<Rightarrow> programFiles st f | Some n \<Rightarrow> Some n)))"
proof (intro conjI allI impI ballI)
  fix g assume "g \<notin> set (corruptedFiles H crit st)"
  then show "programFiles (snd (checkFileIntegrity H crit st)) g = programFiles st g"
    by (rule checkFileIntegrity_other)
next
  assume "newestFirst (backups st) = []"
  then show "snd (checkFileIntegrity H crit st) = st"
    by (simp add: checkFileIntegrity_def Let_def restoreFromBackup_def)
next
  fix latest older f
  assume a: "newestFirst (backups st) = latest # older \<and>
      (\<forall>g\<in>set (corruptedFiles H crit st).
          snap_files latest g \<noteq> Some Directory \<and> programFiles st g \<noteq> Some Directory)"
    and f: "f \<in> set (corruptedFiles H crit st)"
  from f have ne: "corruptedFiles H crit st \<noteq> []" by auto
  from a have clean: "\<forall>g\<in>set (corruptedFiles H crit st).
          snap_files latest g \<noteq> Some Directory \<and> programFiles st g \<noteq> Some Directory"
    by simp
  have "programFiles (snd (checkFileIntegrity H crit st)) f
      = restoreLoop (snap_files latest) (corruptedFiles H crit st) (programFiles st) f"
    using a ne by (simp add: checkFileIntegrity_def Let_def restoreFromBackup_def)
  also have "\<dots> = (case snap_files latest f of None \<Rightarrow> programFiles st f | Some n \<Rightarrow> Some n)"
    using restoreLoop_clean [OF clean, of f] f by simp
  finally show "programFiles (snd (checkFileIntegrity H crit st)) f =
            (case snap_files latest f of None \<Rightarrow> programFiles st f | Some n \<Rightarrow> Some n)" .
qed

lemma isCorrupted_iff:
  "isCorrupted H st f \<longleftrightarrow>
     programFiles st f = None \<or>
     (\<exists>h. storedHash st f = Some h \<and> calculateFileHash H (programFiles st) f \<noteq> Some h)"
  by (auto simp: isCorrupted_def split: option.splits)

text \<open>
  Claim C9, amended. A critical file that exists on disk and has no stored hash is
  skipped: it is not reported as corrupted and the check leaves it as it is. A critical
  file that is missing is reported as corrupted whether or not a hash is stored for it.
\<close>

theorem checkFileIntegrity_skips_unbaselined:
  "(programFiles st f \<noteq> None \<and> storedHash st f = None \<longrightarrow>
      f \<notin> set (fst (checkFileIntegrity H crit st)) \<and>
      programFiles (snd (checkFileIntegrity H crit st)) f = programFiles st f) \<and>
   (programFiles st f = None \<and> f \<in> set crit \<longrightarrow> f \<in> set (fst (checkFileIntegrity H crit st)))"
proof (intro conjI impI)
  assume a: "programFiles st f \<noteq> None \<and> storedHash st f = None"
  then have "\<not> isCorrupted H st f" by (simp add: isCorrupted_iff)
  then have n: "f \<notin> set (corruptedFiles H crit st)" by (simp add: corruptedFiles_def)
  then show "f \<notin> set (fst (checkFileIntegrity H crit st))" by (simp add: checkFileIntegrity_fst)
  from n show "programFiles (snd (checkFileIntegrity H crit st)) f = programFiles st f"
    by (rule checkFileIntegrity_other)
next
  assume "programFiles st f = None \<and> f \<in> set crit"
  then show "f \<in> set (fst (checkFileIntegrity H crit st))"
    by (simp add: checkFileIntegrity_fst corruptedFiles_def isCorrupted_iff)
qed

lemma sp_backed_up_fields:
  "programFiles sp_backed_up = [''service.js'' \<mapsto> File ''s'', ''config.js'' \<mapsto> File ''c'']"
  "backups sp_backed_up =
     [\<lparr> snap_name = ''backup-1'', snap_mtime = 100,
        snap_files = [''service.js'' \<mapsto> File ''s'', ''config.js'' \<mapsto> File ''c''] \<rparr>]"
  "criticalFileHashes sp_backed_up =
     [''service.js'' \<mapsto> Some ''#s'', ''config.js'' \<mapsto> Some ''#c'']"
  by (simp_all add: sp_backed_up_def backupCriticalFiles_def sp_fresh_def twoFiles_def
        toyHash_def calculateFileHash_def putSnapshot_def cleanupOldBackups_def
        newestFirst_def isBackupFolder_def Let_def)

lemma sp_lost_fields:
  "programFiles sp_lost ''service.js'' = None"
  "programFiles sp_lost ''config.js'' = Some (File ''c'')"
  "backups sp_lost =
     [\<lparr> snap_name = ''backup-1'', snap_mtime = 100,
        snap_files = [''service.js'' \<mapsto> File ''s'', ''config.js'' \<mapsto> File ''c''] \<rparr>,
      \<lparr> snap_name = ''backup-2'', snap_mtime = 200,
        snap_files = [''config.js'' \<mapsto> File ''c''] \<rparr>]"
  "storedHash sp_lost ''service.js'' = Some ''#s''"
  "storedHash sp_lost ''config.js'' = Some ''#c''"
  by (simp_all add: sp_lost_def deleteFile_def sp_backed_up_fields backupCriticalFiles_def
        twoFiles_def toyHash_def calculateFileHash_def putSnapshot_def cleanupOldBackups_def
        newestFirst_def isBackupFolder_def Let_def storedHash_def)

lemma sp_lost_corrupted: "corruptedFiles toyHash twoFiles sp_lost = [''service.js'']"
  by (simp add: corruptedFiles_def twoFiles_def isCorrupted_def sp_lost_fields
        calculateFileHash_def toyHash_def)

text \<open>
  Against claim C7 as stated: \<^verbatim>\<open>service.js\<close> is missing, the folder of time 100
  holds a copy of it, the newer folder of time 200 does not. The check reports the
  file and leaves it missing: the newest folder that contains the file is not used.
\<close>

theorem checkFileIntegrity_older_snapshot_counterexample:
  "programFiles sp_lost ''service.js'' = None \<and>
   map snap_mtime (backups sp_lost) = [100, 200] \<and>
   map (\<lambda>b. snap_files b ''service.js'') (backups sp_lost) = [Some (File ''s''), None] \<and>
   fst (checkFileIntegrity toyHash twoFiles sp_lost) = [''service.js''] \<and>
   programFiles (snd (checkFileIntegrity toyHash twoFiles sp_lost)) ''service.js'' = None"
  by (simp add: checkFileIntegrity_def Let_def sp_lost_corrupted sp_lost_fields
        restoreFromBackup_def newestFirst_def isBackupFolder_def)

lemma sp_tampered_corrupted: "corruptedFiles toyHash twoFiles sp_tampered = [''service.js'']"
  by (simp add: corruptedFiles_def twoFiles_def isCorrupted_def sp_tampered_def
        sp_backed_up_fields storedHash_def calculateFileHash_def toyHash_def)

lemma sp_tampered_newest:
  "newestFirst (backups sp_tampered) =
     [\<lparr> snap_name = ''backup-1'', snap_mtime = 100,
        snap_files = [''service.js'' \<mapsto> File ''s'', ''config.js'' \<mapsto> File ''c''] \<rparr>]"
  by (simp add: sp_tampered_def sp_backed_up_fields newestFirst_def isBackupFolder_def)

text \<open>A tampered \<^verbatim>\<open>service.js\<close> is put back from the only backup; \<^verbatim>\<open>config.js\<close>
  is left alone.\<close>

theorem checkFileIntegrity_restores_from_latest_witness:
  "map snap_name (newestFirst (backups sp_tampered)) = [''backup-1''] \<and>
   corruptedFiles toyHash twoFiles sp_tampered = [''service.js''] \<and>
   programFiles sp_tampered ''service.js'' = Some (File ''x'') \<and>
   programFiles (snd (checkFileIntegrity toyHash twoFiles sp_tampered)) ''service.js''
     = Some (File ''s'') \<and>
   programFiles (snd (checkFileIntegrity toyHash twoFiles sp_tampered)) ''config.js''
     = programFiles sp_tampered ''config.js''"
proof -
  let ?latest = "\<lparr> snap_name = ''backup-1'', snap_mtime = 100,
        snap_files = [''service.js'' \<mapsto> File ''s'', ''config.js'' \<mapsto> File ''c''] \<rparr>"
  have clean: "\<forall>g\<in>set (corruptedFiles toyHash twoFiles sp_tampered).
          snap_files ?latest g \<noteq> Some Directory \<and> programFiles sp_tampered g \<noteq> Some Directory"
    by (simp add: sp_tampered_corrupted) (simp add: sp_tampered_def)
  have x: "programFiles sp_tampered ''service.js'' = Some (File ''x'')"
    by (simp add: sp_tampered_def)
  from checkFileIntegrity_restores_from_latest [of toyHash twoFiles sp_tampered]
  have other: "\<forall>g. g \<notin> set (corruptedFiles toyHash twoFiles sp_tampered) \<longrightarrow>
        programFiles (snd (checkFileIntegrity toyHash twoFiles sp_tampered)) g
          = programFiles sp_tampered g"
    and restored: "\<forall>latest older.
      newestFirst (backups sp_tampered) = latest # older \<and>
      (\<forall>g\<in>set (corruptedFiles toyHash twoFiles sp_tampered).
          snap_files latest g \<noteq> Some Directory \<and> programFiles sp_tampered g \<noteq> Some Directory) \<longrightarrow>
      (\<forall>f\<in>set (corruptedFiles toyHash twoFiles sp_tampered).
          programFiles (snd (checkFileIntegrity toyHash twoFiles sp_tampered)) f =
            (case snap_files latest f of None \<Rightarrow> programFiles sp_tampered f | Some n \<Rightarrow> Some n))"
    by blast+
  from restored sp_tampered_newest clean
  have "\<forall>f\<in>set (corruptedFiles toyHash twoFiles sp_tampered).
          programFiles (snd (checkFileIntegrity toyHash twoFiles sp_tampered)) f =
            (case snap_files ?latest f of None \<Rightarrow> programFiles sp_tampered f | Some n \<Rightarrow> Some n)"
    by blast
  then have a: "programFiles (snd (checkFileIntegrity toyHash twoFiles sp_tampered)) ''service.js''
     = Some (File ''s'')"
    by (simp add: sp_tampered_corrupted)
  from other have b: "programFiles (snd (checkFileIntegrity toyHash twoFiles sp_tampered)) ''config.js''
     = programFiles sp_tampered ''config.js''"
    by (simp add: sp_tampered_corrupted)
  from a b x sp_tampered_corrupted show ?thesis by (simp add: sp_tampered_newest)
qed

text \<open>
  Against claim C9 as stated: in \<open>sp_restarted\<close> no hash is stored for
  \<^verbatim>\<open>service.js\<close> and the file is missing. The check reports it as corrupted and
  restores it from the backup folder.
\<close>

theorem checkFileIntegrity_missing_unbaselined_counterexample:
  "storedHash sp_restarted ''service.js'' = None \<and>
   programFiles sp_restarted ''service.js'' = None \<and>
   fst (checkFileIntegrity toyHash twoFiles sp_restarted) = [''service.js'', ''config.js''] \<and>
   programFiles (snd (checkFileIntegrity toyHash twoFiles sp_restarted)) ''service.js''
     = Some (File ''s'')"
  by (simp add: checkFileIntegrity_def Let_def corruptedFiles_def twoFiles_def isCorrupted_def
        sp_restarted_def storedHash_def restoreFromBackup_def newestFirst_def isBackupFolder_def)

text \<open>Before the first backup both files exist and neither has a stored hash: the
  check reports nothing. In \<open>sp_restarted\<close> the missing \<^verbatim>\<open>config.js\<close> is reported.\<close>

theorem checkFileIntegrity_skips_unbaselined_witness:
  "programFiles sp_fresh ''service.js'' \<noteq> None \<and>
   storedHash sp_fresh ''service.js'' = None \<and>
   ''service.js'' \<notin> set (fst (checkFileIntegrity toyHash twoFiles sp_fresh)) \<and>
   programFiles (snd (checkFileIntegrity toyHash twoFiles sp_fresh)) ''service.js''
     = Some (File ''s'') \<and>
   programFiles sp_restarted ''config.js'' = None \<and>
   ''config.js'' \<in> set twoFiles \<and>
   ''config.js'' \<in> set (fst (checkFileIntegrity toyHash twoFiles sp_restarted))"
proof -
  have a: "programFiles sp_fresh ''service.js'' \<noteq> None \<and> storedHash sp_fresh ''service.js'' = None"
    by (simp add: sp_fresh_def storedHash_def)
  have b: "programFiles sp_restarted ''config.js'' = None \<and> ''config.js'' \<in> set twoFiles"
    by (simp add: sp_restarted_def twoFiles_def)
  have c: "programFiles sp_fresh ''service.js'' = Some (File ''s'')"
    by (simp add: sp_fresh_def)
  from checkFileIntegrity_skips_unbaselined [of sp_fresh "''service.js''" toyHash twoFiles] a
    checkFileIntegrity_skips_unbaselined [of sp_restarted "''config.js''" toyHash twoFiles] b c
  show ?thesis by simp
qed

subsection \<open>ApiService\<close>

lemma getFromCache_api_emit: "getFromCache svc (api_emit e st) endpoint = getFromCache svc st endpoint"
  by (simp add: getFromCache_def api_emit_def)

lemma getCacheTimestamp_api_emit:
  "getCacheTimestamp svc (api_emit e st) endpoint = getCacheTimestamp svc st endpoint"
  by (simp add: getCacheTimestamp_def api_emit_def)

lemma cachedAnswer_api_emit: "cachedAnswer svc (api_emit e st) endpoint = cachedAnswer svc st endpoint"
  by (simp only: cachedAnswer_def getFromCache_api_emit getCacheTimestamp_api_emit)

lemma fetchWithRetry_retry:
  assumes "\<not> cacheFirst options \<or> cachedAnswer svc st endpoint = None"
    and "net retryCount = Failure err"
    and "retryCount < length (retryDelays svc)"
    and "isRetryableError err"
  shows "fetchWithRetry svc net writable endpoint options retryCount st =
         fetchWithRetry svc net writable endpoint options (Suc retryCount)
           (api_emit (Sleep (retryDelays svc ! retryCount))
              (api_emit (Request (baseUrl svc @ ''/'' @ endpoint) retryCount) st))"
  using assms by (subst fetchWithRetry.simps) (auto simp: Let_def)

lemma fetchWithRetry_giveup:
  assumes "\<not> cacheFirst options \<or> cachedAnswer svc st endpoint = None"
    and "net retryCount = Failure err"
    and "\<not> (retryCount < length (retryDelays svc) \<and> isRetryableError err)"
  shows "fetchWithRetry svc net writable endpoint options retryCount st =
         (case cachedAnswer svc st endpoint of
            Some answer \<Rightarrow> Inr answer
          | None \<Rightarrow> Inl err,
          api_emit (Request (baseUrl svc @ ''/'' @ endpoint) retryCount) st)"
  using assms
  by (subst fetchWithRetry.simps) (auto simp: Let_def cachedAnswer_api_emit split: option.splits)

lemma fetchWithRetry_success:
  assumes "\<not> cacheFirst options \<or> cachedAnswer svc st endpoint = None"
    and "net retryCount = Response payload now"
  shows "fetchWithRetry svc net writable endpoint options retryCount st =
         (Inr (Fresh payload),
          cacheResponse svc writable endpoint payload now
            (api_emit (Request (baseUrl svc @ ''/'' @ endpoint) retryCount) st))"
  using assms by (subst fetchWithRetry.simps) (auto simp: Let_def)

lemma fetchWithRetry_cacheFirst:
  assumes "cacheFirst options" and "cachedAnswer svc st endpoint = Some answer"
  shows "fetchWithRetry svc net writable endpoint options retryCount st = (Inr answer, st)"
  using assms by (subst fetchWithRetry.simps) simp

text \<open>All attempts fail with retryable errors, from retryCount on.\<close>

lemma fetchWithRetry_all_fail:
  assumes "\<forall>i\<le>length (retryDelays svc). \<exists>e. net i = Failure e \<and> isRetryableError e"
    and "\<not> cacheFirst options \<or> cachedAnswer svc st endpoint = None"
    and "retryCount \<le> length (retryDelays svc)"
  shows "\<exists>e. net (length (retryDelays svc)) = Failure e \<and>
         fetchWithRetry svc net writable endpoint options retryCount st =
         (case cachedAnswer svc st endpoint of Some answer \<Rightarrow> Inr answer | None \<Rightarrow> Inl e,
          st\<lparr> api_events := api_events st @
             concat (map (\<lambda>i. [Request (baseUrl svc @ ''/'' @ endpoint) i, Sleep (retryDelays svc ! i)])
                       [retryCount ..< length (retryDelays svc)])
             @ [Request (baseUrl svc @ ''/'' @ endpoint) (length (retryDelays svc))] \<rparr>)"
  using assms(2,3)
proof (induction "length (retryDelays svc) - retryCount" arbitrary: retryCount st)
  case 0
  then have eq: "retryCount = length (retryDelays svc)" by simp
  from assms(1) obtain e where e: "net (length (retryDelays svc)) = Failure e" by auto
  show ?case
    using fetchWithRetry_giveup [where net = net and retryCount = retryCount and err = e
        and writable = writable, OF "0.prems"(1)] e eq
    by (auto simp: api_emit_def)
next
  case (Suc k)
  then have lt: "retryCount < length (retryDelays svc)" by simp
  from assms(1) lt obtain e where e: "net retryCount = Failure e" "isRetryableError e"
    by (meson less_imp_le_nat)
  let ?st2 = "api_emit (Sleep (retryDelays svc ! retryCount))
              (api_emit (Request (baseUrl svc @ ''/'' @ endpoint) retryCount) st)"
  have step: "fetchWithRetry svc net writable endpoint options retryCount st =
         fetchWithRetry svc net writable endpoint options (Suc retryCount) ?st2"
    by (rule fetchWithRetry_retry [where net = net and retryCount = retryCount,
          OF Suc.prems(1) e(1) lt e(2)])
  have c2: "cachedAnswer svc ?st2 endpoint = cachedAnswer svc st endpoint"
    by (simp add: cachedAnswer_api_emit)
  have k: "k = length (retryDelays svc) - Suc retryCount" using Suc.hyps(2) by simp
  have p1: "\<not> cacheFirst options \<or> cachedAnswer svc ?st2 endpoint = None"
    using Suc.prems(1) c2 by simp
  have p2: "Suc retryCount \<le> length (retryDelays svc)" using lt by simp
  from Suc.hyps(1) [OF k p1 p2] obtain e' where
    e': "net (length (retryDelays svc)) = Failure e'"
    and r: "fetchWithRetry svc net writable endpoint options (Suc retryCount) ?st2 =
         (case cachedAnswer svc ?st2 endpoint of Some answer \<Rightarrow> Inr answer | None \<Rightarrow> Inl e',
          ?st2\<lparr> api_events := api_events ?st2 @
             concat (map (\<lambda>i. [Request (baseUrl svc @ ''/'' @ endpoint) i, Sleep (retryDelays svc ! i)])
                       [Suc retryCount ..< length (retryDelays svc)])
             @ [Request (baseUrl svc @ ''/'' @ endpoint) (length (retryDelays svc))] \<rparr>)"
    by blast
  have "[retryCount ..< length (retryDelays svc)] = retryCount # [Suc retryCount ..< length (retryDelays svc)]"
    using lt by (simp add: upt_conv_Cons)
  then show ?case
    using e' r step c2 by (auto simp: api_emit_def)
qed

lemma api_fields:
  "retryDelays api = [1000, 2000, 5000, 10000, 30000]"
  "length (retryDelays api) = 5"
  "baseUrl api = ''http://localhost:3000/api''"
  "getCachePath api ''patterns'' = ''cache/patterns.json''"
  by (simp_all add: api_def ApiService_new_def getCachePath_def)

lemma upt_0_5: "[0..<5] = [0, 1, 2, 3, 4]"
  by (simp add: upt_rec)

lemma noCache_events: "api_events noCache = []"
  by (simp add: noCache_def)

text \<open>
  Against claim C2 as stated: with the network down and nothing cached, the call
  throws after six requests, not five. The retry test \<^verbatim>\<open>retryCount < retryDelays.length\<close>
  still holds at retry counts 0 to 4, so five retries follow the first request.
\<close>

theorem fetchWithRetry_attempts_counterexample:
  "cacheFiles noCache (getCachePath api ''patterns'') = None \<and>
   fst (fetchWithRetry api networkDown True ''patterns'' networkFirst 0 noCache)
     = Inl NetworkFailure \<and>
   requestsIn (api_events (snd (fetchWithRetry api networkDown True ''patterns'' networkFirst 0
     noCache))) = 6"
proof -
  have a: "\<forall>i\<le>length (retryDelays api). \<exists>e. networkDown i = Failure e \<and> isRetryableError e"
    by (simp add: networkDown_def isRetryableError_def)
  have b: "\<not> cacheFirst networkFirst \<or> cachedAnswer api noCache ''patterns'' = None"
    by (simp add: networkFirst_def)
  have c: "cachedAnswer api noCache ''patterns'' = None"
    by (simp add: cachedAnswer_def getFromCache_def noCache_def)
  from fetchWithRetry_all_fail [OF a b, of 0 True]
  obtain e where e: "networkDown (length (retryDelays api)) = Failure e"
    and r: "fetchWithRetry api networkDown True ''patterns'' networkFirst 0 noCache =
         (case cachedAnswer api noCache ''patterns'' of Some answer \<Rightarrow> Inr answer | None \<Rightarrow> Inl e,
          noCache\<lparr> api_events := api_events noCache @
             concat (map (\<lambda>i. [Request (baseUrl api @ ''/'' @ ''patterns'') i, Sleep (retryDelays api ! i)])
                       [0 ..< length (retryDelays api)])
             @ [Request (baseUrl api @ ''/'' @ ''patterns'') (length (retryDelays api))] \<rparr>)"
    by blast
  from e have e': "e = NetworkFailure" by (simp add: networkDown_def)
  have "cacheFiles noCache (getCachePath api ''patterns'') = None"
    by (simp add: noCache_def)
  then show ?thesis
    unfolding r by (simp add: c e' api_fields(2) upt_0_5 requestsIn_def noCache_events)
qed

text \<open>
  Claim C2, amended. When every request fails with a retryable error (no response, or
  a status of 500 and above) and the cache has nothing to offer for the endpoint, a
  call with the constructor's delays throws the error of the last request after six
  requests: the first one and five retries, with pauses of 1, 2, 5, 10 and 30 seconds
  before the retries. The cache is not written.
\<close>

theorem fetchWithRetry_exhausts_after_six:
  assumes "retryDelays svc = [1000, 2000, 5000, 10000, 30000]"
    and "\<forall>i\<le>5. \<exists>e. net i = Failure e \<and> isRetryableError e"
    and "cachedAnswer svc st endpoint = None"
  shows "\<exists>e. net 5 = Failure e \<and>
           fst (fetchWithRetry svc net writable endpoint options 0 st) = Inl e \<and>
           api_events (snd (fetchWithRetry svc net writable endpoint options 0 st)) =
             api_events st @
             [Request (baseUrl svc @ ''/'' @ endpoint) 0, Sleep 1000,
              Request (baseUrl svc @ ''/'' @ endpoint) 1, Sleep 2000,
              Request (baseUrl svc @ ''/'' @ endpoint) 2, Sleep 5000,
              Request (baseUrl svc @ ''/'' @ endpoint) 3, Sleep 10000,
              Request (baseUrl svc @ ''/'' @ endpoint) 4, Sleep 30000,
              Request (baseUrl svc @ ''/'' @ endpoint) 5] \<and>
           cacheFiles (snd (fetchWithRetry svc net writable endpoint options 0 st)) = cacheFiles st"
proof -
  have len: "length (retryDelays svc) = 5" using assms(1) by simp
  have a: "\<forall>i\<le>length (retryDelays svc). \<exists>e. net i = Failure e \<and> isRetryableError e"
    using assms(2) len by simp
  have b: "\<not> cacheFirst options \<or> cachedAnswer svc st endpoint = None"
    using assms(3) by simp
  from fetchWithRetry_all_fail [OF a b, of 0 writable]
  obtain e where e: "net (length (retryDelays svc)) = Failure e"
    and r: "fetchWithRetry svc net writable endpoint options 0 st =
         (case cachedAnswer svc st endpoint of Some answer \<Rightarrow> Inr answer | None \<Rightarrow> Inl e,
          st\<lparr> api_events := api_events st @
             concat (map (\<lambda>i. [Request (baseUrl svc @ ''/'' @ endpoint) i, Sleep (retryDelays svc ! i)])
                       [0 ..< length (retryDelays svc)])
             @ [Request (baseUrl svc @ ''/'' @ endpoint) (length (retryDelays svc))] \<rparr>)"
    by blast
  have ev: "concat (map (\<lambda>i. [Request (baseUrl svc @ ''/'' @ endpoint) i, Sleep (retryDelays svc ! i)])
                       [0 ..< length (retryDelays svc)])
      = [Request (baseUrl svc @ ''/'' @ endpoint) 0, Sleep 1000,
         Request (baseUrl svc @ ''/'' @ endpoint) 1, Sleep 2000,
         Request (baseUrl svc @ ''/'' @ endpoint) 2, Sleep 5000,
         Request (baseUrl svc @ ''/'' @ endpoint) 3, Sleep 10000,
         Request (baseUrl svc @ ''/'' @ endpoint) 4, Sleep 30000]"
    unfolding len upt_0_5 by (simp add: assms(1))
  show ?thesis
  proof (intro exI [of _ e] conjI)
    show "net 5 = Failure e" using e len by simp
    show "fst (fetchWithRetry svc net writable endpoint options 0 st) = Inl e"
      unfolding r by (simp add: assms(3))
    show "api_events (snd (fetchWithRetry svc net writable endpoint options 0 st)) =
            api_events st @
             [Request (baseUrl svc @ ''/'' @ endpoint) 0, Sleep 1000,
              Request (baseUrl svc @ ''/'' @ endpoint) 1, Sleep 2000,
              Request (baseUrl svc @ ''/'' @ endpoint) 2, Sleep 5000,
              Request (baseUrl svc @ ''/'' @ endpoint) 3, Sleep 10000,
              Request (baseUrl svc @ ''/'' @ endpoint) 4, Sleep 30000,
              Request (baseUrl svc @ ''/'' @ endpoint) 5]"
      unfolding r ev by (simp add: len)
    show "cacheFiles (snd (fetchWithRetry svc net writable endpoint options 0 st)) = cacheFiles st"
      unfolding r by simp
  qed
qed

text \<open>The network is down, nothing is cached.\<close>

theorem fetchWithRetry_exhausts_after_six_witness:
  "retryDelays api = [1000, 2000, 5000, 10000, 30000] \<and>
   networkDown 0 = Failure NetworkFailure \<and> networkDown 5 = Failure NetworkFailure \<and>
   isRetryableError NetworkFailure \<and>
   cachedAnswer api noCache ''patterns'' = None \<and>
   fst (fetchWithRetry api networkDown False ''patterns'' networkFirst 0 noCache)
     = Inl NetworkFailure \<and>
   sleepsIn (api_events (snd (fetchWithRetry api networkDown False ''patterns'' networkFirst 0
     noCache))) = [1000, 2000, 5000, 10000, 30000]"
proof -
  have a: "\<forall>i\<le>5. \<exists>e. networkDown i = Failure e \<and> isRetryableError e"
    by (simp add: networkDown_def isRetryableError_def)
  have c: "cachedAnswer api noCache ''patterns'' = None"
    by (simp add: cachedAnswer_def getFromCache_def noCache_def)
  from fetchWithRetry_exhausts_after_six [OF api_fields(1) a c, of False networkFirst]
  obtain e where e: "networkDown 5 = Failure e"
    and r: "fst (fetchWithRetry api networkDown False ''patterns'' networkFirst 0 noCache) = Inl e"
    and ev: "api_events (snd (fetchWithRetry api networkDown False ''patterns'' networkFirst 0
        noCache)) =
             api_events noCache @
             [Request (baseUrl api @ ''/'' @ ''patterns'') 0, Sleep 1000,
              Request (baseUrl api @ ''/'' @ ''patterns'') 1, Sleep 2000,
              Request (baseUrl api @ ''/'' @ ''patterns'') 2, Sleep 5000,
              Request (baseUrl api @ ''/'' @ ''patterns'') 3, Sleep 10000,
              Request (baseUrl api @ ''/'' @ ''patterns'') 4, Sleep 30000,
              Request (baseUrl api @ ''/'' @ ''patterns'') 5]"
    by blast
  from e have e': "e = NetworkFailure" by (simp add: networkDown_def)
  have s: "sleepsIn (api_events (snd (fetchWithRetry api networkDown False ''patterns''
      networkFirst 0 noCache))) = [1000, 2000, 5000, 10000, 30000]"
    unfolding ev by (simp add: sleepsIn_def noCache_events)
  have "networkDown 0 = Failure NetworkFailure" "networkDown 5 = Failure NetworkFailure"
    "isRetryableError NetworkFailure"
    by (simp_all add: networkDown_def isRetryableError_def)
  with r e' s c api_fields(1) show ?thesis by simp
qed

text \<open>
  Against claim C4 as stated: the server answers 404 to the first request while a
  payload is cached for the endpoint. The call does not fail: it returns the cached
  payload.
\<close>

theorem fetchWithRetry_client_error_counterexample:
  "notFound 0 = Failure (HttpFailure 404) \<and>
   \<not> isRetryableError (HttpFailure 404) \<and>
   fst (fetchWithRetry api notFound True ''patterns'' networkFirst 0 reportCached)
     = Inr (FromCache (JArr [JStr ''invoice'']) (Some 1700000000000))"
proof -
  have b: "\<not> cacheFirst networkFirst \<or> cachedAnswer api reportCached ''patterns'' = None"
    by (simp add: networkFirst_def)
  have n: "notFound 0 = Failure (HttpFailure 404)" by (simp add: notFound_def)
  have r: "\<not> (0 < length (retryDelays api) \<and> isRetryableError (HttpFailure 404))"
    by (simp add: isRetryableError_def)
  have c: "cachedAnswer api reportCached ''patterns''
         = Some (FromCache (JArr [JStr ''invoice'']) (Some 1700000000000))"
    by (simp add: cachedAnswer_def getFromCache_def getCacheTimestamp_def reportCached_def
          api_fields)
  from fetchWithRetry_giveup [where net = notFound and retryCount = 0, OF b n r, of True]
  have "fst (fetchWithRetry api notFound True ''patterns'' networkFirst 0 reportCached)
     = Inr (FromCache (JArr [JStr ''invoice'']) (Some 1700000000000))"
    by (simp add: c)
  moreover have "\<not> isRetryableError (HttpFailure 404)" by (simp add: isRetryableError_def)
  ultimately show ?thesis using n by simp
qed

text \<open>
  Claim C4, amended. A request that fails with a status below 500 is never retried and
  no pause follows it: the call ends with that one request. It ends by throwing the
  error to the caller when the cache has nothing to offer for the endpoint, and by
  returning the cached payload, marked as coming from the cache, when it has.
\<close>

theorem fetchWithRetry_client_error_no_retry:
  assumes "net retryCount = Failure (HttpFailure status)"
    and "status < 500"
    and "\<not> cacheFirst options \<or> cachedAnswer svc st endpoint = None"
  shows "fetchWithRetry svc net writable endpoint options retryCount st =
           (case cachedAnswer svc st endpoint of
              Some answer \<Rightarrow> Inr answer
            | None \<Rightarrow> Inl (HttpFailure status),
            st\<lparr> api_events :=
                 api_events st @ [Request (baseUrl svc @ ''/'' @ endpoint) retryCount] \<rparr>)"
proof -
  have r: "\<not> (retryCount < length (retryDelays svc) \<and> isRetryableError (HttpFailure status))"
    using assms(2) by (simp add: isRetryableError_def)
  from fetchWithRetry_giveup [where net = net and retryCount = retryCount,
      OF assms(3) assms(1) r, of writable]
  show ?thesis by (simp add: api_emit_def)
qed

text \<open>A 404 with nothing cached is thrown after the single request.\<close>

theorem fetchWithRetry_client_error_no_retry_witness:
  "notFound 0 = Failure (HttpFailure 404) \<and> (404::nat) < 500 \<and>
   \<not> cacheFirst networkFirst \<and>
   fetchWithRetry api notFound True ''patterns'' networkFirst 0 noCache =
     (Inl (HttpFailure 404),
      noCache\<lparr> api_events := [Request ''http://localhost:3000/api/patterns'' 0] \<rparr>)"
proof -
  have n: "notFound 0 = Failure (HttpFailure 404)" by (simp add: notFound_def)
  have s: "(404::nat) < 500" by simp
  have b: "\<not> cacheFirst networkFirst \<or> cachedAnswer api noCache ''patterns'' = None"
    by (simp add: networkFirst_def)
  have c: "cachedAnswer api noCache ''patterns'' = None"
    by (simp add: cachedAnswer_def getFromCache_def noCache_def)
  have nf: "\<not> cacheFirst networkFirst" by (simp add: networkFirst_def)
  from fetchWithRetry_client_error_no_retry [where net = notFound and retryCount = 0,
      OF n s b, of True]
  have "fetchWithRetry api notFound True ''patterns'' networkFirst 0 noCache =
     (Inl (HttpFailure 404),
      noCache\<lparr> api_events := [Request ''http://localhost:3000/api/patterns'' 0] \<rparr>)"
    by (simp add: c api_fields(3) noCache_events)
  with n nf show ?thesis by simp
qed

text \<open>
  When the retries are used up, or the error is not retryable, and the cached payload
  is truthy, the call returns that payload with the time stamp of the cache file.
\<close>

lemma fetchWithRetry_falls_back_to_cache:
  assumes "cacheFiles st (getCachePath svc endpoint) = Some (Entry payload stamp)"
    and "truthy payload"
    and "\<not> cacheFirst options"
    and "\<forall>i\<le>length (retryDelays svc). \<exists>e. net i = Failure e \<and> isRetryableError e"
  shows "fst (fetchWithRetry svc net writable endpoint options 0 st)
           = Inr (FromCache payload (Some stamp))"
proof -
  have c: "cachedAnswer svc st endpoint = Some (FromCache payload (Some stamp))"
    using assms(1,2) by (simp add: cachedAnswer_def getFromCache_def getCacheTimestamp_def)
  have b: "\<not> cacheFirst options \<or> cachedAnswer svc st endpoint = None"
    using assms(3) by simp
  from fetchWithRetry_all_fail [OF assms(4) b, of 0 writable]
  show ?thesis by (auto simp: c)
qed

lemma fetch_emptyBody:
  "fetchWithRetry api emptyBody True ''status'' networkFirst 0 noCache =
     (Inr (Fresh (JStr [])),
      cacheResponse api True ''status'' (JStr []) 1700000000000
        (api_emit (Request (baseUrl api @ ''/'' @ ''status'') 0) noCache))"
  by (rule fetchWithRetry_success) (simp_all add: networkFirst_def emptyBody_def)

lemma emptyBodyCached_fields:
  "cacheFiles emptyBodyCached (getCachePath api ''status'') = Some (Entry (JStr []) 1700000000000)"
  "cachedAnswer api emptyBodyCached ''status'' = None"
  by (simp_all add: emptyBodyCached_def fetch_emptyBody cacheResponse_def cachedAnswer_def
        getFromCache_def)

text \<open>
  Claim C3 at a failing input. A first call fetches the endpoint \<^verbatim>\<open>status\<close>
  successfully; the body is the empty string, and it is written to the cache. In a
  second call every request fails. A cache entry exists, yet the call throws the
  network error: the entry's payload is falsy, and the fallback tests the payload
  itself instead of testing for \<^verbatim>\<open>null\<close>.
\<close>

theorem fetchWithRetry_falsy_cache_thrown:
  "fst (fetchWithRetry api emptyBody True ''status'' networkFirst 0 noCache)
     = Inr (Fresh (JStr [])) \<and>
   cacheFiles emptyBodyCached (getCachePath api ''status'')
     = Some (Entry (JStr []) 1700000000000) \<and>
   fst (fetchWithRetry api networkDown True ''status'' networkFirst 0 emptyBodyCached)
     = Inl NetworkFailure"
proof -
  have a: "\<forall>i\<le>length (retryDelays api). \<exists>e. networkDown i = Failure e \<and> isRetryableError e"
    by (simp add: networkDown_def isRetryableError_def)
  have b: "\<not> cacheFirst networkFirst \<or> cachedAnswer api emptyBodyCached ''status'' = None"
    by (simp add: networkFirst_def)
  have first: "fst (fetchWithRetry api emptyBody True ''status'' networkFirst 0 noCache)
     = Inr (Fresh (JStr []))"
    by (simp add: fetch_emptyBody)
  from fetchWithRetry_all_fail [OF a b, of 0 True]
  obtain e where e: "networkDown (length (retryDelays api)) = Failure e"
    and r: "fst (fetchWithRetry api networkDown True ''status'' networkFirst 0 emptyBodyCached) =
         (case cachedAnswer api emptyBodyCached ''status'' of
            Some answer \<Rightarrow> Inr answer | None \<Rightarrow> Inl e)"
    by force
  from e have e': "e = NetworkFailure" by (simp add: networkDown_def)
  from r have "fst (fetchWithRetry api networkDown True ''status'' networkFirst 0 emptyBodyCached)
     = Inl NetworkFailure"
    by (simp add: emptyBodyCached_fields(2) e')
  with first emptyBodyCached_fields(1) show ?thesis by simp
qed

subsection \<open>Operation queue\<close>

lemma length_insertItem: "length (insertItem x ys) = Suc (length ys)"
  by (induction ys) simp_all

lemma length_sortBatch: "length (sortBatch xs) = length xs"
  by (induction xs) (simp_all add: sortBatch_def length_insertItem)

lemma po_run_append:
  "po_run cfg (xs @ ys) st = (case po_run cfg xs st of None \<Rightarrow> None | Some st1 \<Rightarrow> po_run cfg ys st1)"
  by (induction xs arbitrary: st) (simp_all split: option.splits)

lemma submit_while_processing:
  "isProcessing st \<Longrightarrow>
   po_run cfg (map Submit items) st = Some (st\<lparr> queue := queue st @ items \<rparr>)"
proof (induction items arbitrary: st)
  case Nil
  then show ?case by simp
next
  case (Cons x xs)
  have "po_step cfg (Submit x) st = Some (st\<lparr> queue := queue st @ [x] \<rparr>)"
    using Cons.prems by (simp add: po_step_def scheduleOperation_def Let_def)
  moreover have "isProcessing (st\<lparr> queue := queue st @ [x] \<rparr>)" using Cons.prems by simp
  ultimately show ?case using Cons.IH [of "st\<lparr> queue := queue st @ [x] \<rparr>"] by simp
qed

lemma processLoop_dispatch:
  assumes "queue st \<noteq> []" "activeOperations st < maxConcurrentOperations cfg" "0 < batchSize cfg"
  shows "processLoop cfg st = Some (dispatchBatch cfg st)"
proof -
  have "length (inFlight (dispatchBatch cfg st)) = min (length (queue st)) (batchSize cfg)"
    by (simp add: dispatchBatch_def Let_def length_sortBatch)
  with assms have "inFlight (dispatchBatch cfg st) \<noteq> []" by (cases "queue st") auto
  with assms show ?thesis by (subst processLoop.simps) simp
qed

lemma first_submit:
  assumes "0 < maxConcurrentOperations cfg" "0 < batchSize cfg"
  shows "po_step cfg (Submit x) po_initial =
     Some (po_initial\<lparr> isProcessing := True, activeOperations := 1, inFlight := [x] \<rparr>)"
proof -
  let ?st = "po_initial\<lparr> queue := [x], isProcessing := True \<rparr>"
  have "processLoop cfg ?st = Some (dispatchBatch cfg ?st)"
    using assms by (intro processLoop_dispatch) (simp_all add: po_initial_def)
  moreover have "dispatchBatch cfg ?st = po_initial\<lparr> isProcessing := True, activeOperations := 1, inFlight := [x] \<rparr>"
    using assms(2) by (simp add: dispatchBatch_def Let_def po_initial_def sortBatch_def min_def)
  ultimately show ?thesis
    by (simp add: po_step_def scheduleOperation_def processQueue_def Let_def po_initial_def)
qed

text \<open>A first operation is dispatched alone, since \<^verbatim>\<open>processQueue\<close> starts with the
  first submission. When it settles, the loop cuts the next batch from everything
  submitted meanwhile and starts all of it.\<close>

lemma second_batch:
  assumes "0 < maxConcurrentOperations cfg" "0 < batchSize cfg" "items \<noteq> []"
  shows "\<exists>st. po_run cfg (map Submit (x # items) @ [Settle 0]) po_initial = Some st \<and>
           activeOperations st = min (length items) (batchSize cfg) \<and>
           length (inFlight st) = min (length items) (batchSize cfg)"
proof -
  let ?st1 = "po_initial\<lparr> isProcessing := True, activeOperations := 1, inFlight := [x] \<rparr>"
  let ?st2 = "?st1\<lparr> queue := queue ?st1 @ items \<rparr>"
  have r2: "po_run cfg (map Submit (x # items)) po_initial = Some ?st2"
    using first_submit [OF assms(1,2), of x] submit_while_processing [of ?st1 cfg items]
    by simp
  let ?st3 = "?st2\<lparr> metrics := recordOutcome x (metrics ?st2),
                       settled := settled ?st2 @ [(filePath x, succeeds x)],
                       activeOperations := 0,
                       inFlight := [] \<rparr>"
  have q3: "queue ?st3 = items" "activeOperations ?st3 = 0"
    by (simp_all add: po_initial_def)
  have l3: "processLoop cfg ?st3 = Some (dispatchBatch cfg ?st3)"
    using assms q3 by (intro processLoop_dispatch) simp_all
  have s3: "po_step cfg (Settle 0) ?st2 = Some (dispatchBatch cfg ?st3)"
    using l3 by (simp add: po_step_def settleOperation_def Let_def)
  have "po_run cfg (map Submit (x # items) @ [Settle 0]) po_initial = Some (dispatchBatch cfg ?st3)"
    unfolding po_run_append r2 using s3 by simp
  moreover have "activeOperations (dispatchBatch cfg ?st3) = min (length items) (batchSize cfg)"
    using q3 by (simp add: dispatchBatch_def Let_def length_sortBatch)
  moreover have "length (inFlight (dispatchBatch cfg ?st3)) = min (length items) (batchSize cfg)"
    using q3 by (simp add: dispatchBatch_def Let_def length_sortBatch)
  ultimately show ?thesis by blast
qed

lemma twentyFiveMoves_split:
  "twentyFiveMoves = map Submit (moveOperation 0 # map moveOperation [1..<25])"
  by (simp add: twentyFiveMoves_def upt_rec [of 0 25] comp_def)

text \<open>
  Claim C1 at a failing input. With \<^verbatim>\<open>maxConcurrentOperations\<close> 4 and a batch size
  of 20, 25 operations are submitted and the first one settles. The run has a result,
  and in it the counter \<^verbatim>\<open>activeOperations\<close> stands at 20: the loop compares the
  counter with the limit only before it cuts a batch, and then starts every operation
  of the batch.
\<close>

theorem processQueue_exceeds_limit:
  "maxConcurrentOperations fourAtOnce = 4 \<and>
   map_option activeOperations (po_run fourAtOnce (twentyFiveMoves @ [Settle 0]) po_initial)
     = Some 20"
proof -
  have a: "0 < maxConcurrentOperations fourAtOnce" "0 < batchSize fourAtOnce"
    by (simp_all add: fourAtOnce_def)
  have b: "map moveOperation [1..<25] \<noteq> []" by simp
  from second_batch [OF a b, of "moveOperation 0"]
  show ?thesis
    by (auto simp: twentyFiveMoves_split fourAtOnce_def)
qed

end
